theory Spec2Isabelle
  imports Complex_Main
begin

section \<open>Values shared by the whole module\<close>

subsection \<open>Python floats\<close>

text \<open>
  The scores of \<^verbatim>\<open>gadget.py\<close> are Python/numpy floats. The code relies on
  \<^verbatim>\<open>-float("inf")\<close> and on IEEE comparisons (a comparison with NaN is false), so the
  two infinities and NaN are kept as values of their own. Finite floats are idealised
  as reals: rounding and overflow of finite arithmetic are outside this model.
\<close>

datatype fl = NaN | NInf | Fin real | PInf

fun fl_neg :: "fl \<Rightarrow> fl" where
  "fl_neg NaN = NaN"
| "fl_neg NInf = PInf"
| "fl_neg PInf = NInf"
| "fl_neg (Fin a) = Fin (- a)"

fun fl_add :: "fl \<Rightarrow> fl \<Rightarrow> fl" where
  "fl_add NaN y = NaN"
| "fl_add NInf NaN = NaN"
| "fl_add NInf PInf = NaN"
| "fl_add NInf NInf = NInf"
| "fl_add NInf (Fin b) = NInf"
| "fl_add PInf NaN = NaN"
| "fl_add PInf NInf = NaN"
| "fl_add PInf PInf = PInf"
| "fl_add PInf (Fin b) = PInf"
| "fl_add (Fin a) NaN = NaN"
| "fl_add (Fin a) NInf = NInf"
| "fl_add (Fin a) PInf = PInf"
| "fl_add (Fin a) (Fin b) = Fin (a + b)"

definition fl_sub :: "fl \<Rightarrow> fl \<Rightarrow> fl" where
  "fl_sub x y = fl_add x (fl_neg y)"

text \<open>The comparison \<^verbatim>\<open>x < y\<close> of two floats: false as soon as one side is NaN.\<close>

fun fl_less :: "fl \<Rightarrow> fl \<Rightarrow> bool" where
  "fl_less NaN y = False"
| "fl_less NInf NaN = False"
| "fl_less NInf NInf = False"
| "fl_less NInf (Fin b) = True"
| "fl_less NInf PInf = True"
| "fl_less PInf y = False"
| "fl_less (Fin a) NaN = False"
| "fl_less (Fin a) NInf = False"
| "fl_less (Fin a) PInf = True"
| "fl_less (Fin a) (Fin b) = (a < b)"

text \<open>
  \<^verbatim>\<open>np.logaddexp(x, y)\<close>, the log of \<open>exp x + exp y\<close>. numpy returns \<open>x + log 2\<close> when
  \<open>x == y\<close>, and otherwise the larger argument plus \<open>log1p (exp (- |x - y|))\<close>, which is
  the other argument when one of them is \<open>-inf\<close> and \<open>+inf\<close> when one of them is
  \<open>+inf\<close>; NaN propagates. The only exponential taken is that of the difference of the
  arguments, which is not positive; neither argument is exponentiated itself.
\<close>

fun logaddexp :: "fl \<Rightarrow> fl \<Rightarrow> fl" where
  "logaddexp NaN y = NaN"
| "logaddexp NInf y = y"
| "logaddexp PInf NaN = NaN"
| "logaddexp PInf NInf = PInf"
| "logaddexp PInf PInf = PInf"
| "logaddexp PInf (Fin b) = PInf"
| "logaddexp (Fin a) NaN = NaN"
| "logaddexp (Fin a) NInf = Fin a"
| "logaddexp (Fin a) PInf = PInf"
| "logaddexp (Fin a) (Fin b) =
     (if a = b then Fin (a + ln 2)
      else if 0 < a - b then Fin (a + ln (1 + exp (- (a - b))))
      else Fin (b + ln (1 + exp (a - b))))"

text \<open>\<^verbatim>\<open>np.log\<close> of a finite float: \<open>-inf\<close> at zero and NaN below it.\<close>

definition np_log :: "real \<Rightarrow> fl" where
  "np_log x = (if 0 < x then Fin (ln x) else if x = 0 then NInf else NaN)"

subsection \<open>Python exceptions\<close>

datatype error =
    IndexError | KeyError | ValueError | AttributeError | UnboundLocalError
  | ZeroDivisionError

text \<open>\<^verbatim>\<open>range(k)\<close> for a Python int \<open>k\<close>: empty when \<open>k \<le> 0\<close>.\<close>

definition py_range :: "int \<Rightarrow> int list" where
  "py_range k = map int [0..<nat k]"

text \<open>\<^verbatim>\<open>min(xs)\<close> and \<^verbatim>\<open>max(xs)\<close> of a sequence: ValueError when it is empty.\<close>

definition py_min :: "int list \<Rightarrow> error + int" where
  "py_min xs = (case xs of [] \<Rightarrow> Inl ValueError | x # ys \<Rightarrow> Inr (fold min ys x))"

definition py_max :: "int list \<Rightarrow> error + int" where
  "py_max xs = (case xs of [] \<Rightarrow> Inl ValueError | x # ys \<Rightarrow> Inr (fold max ys x))"

section \<open>Class Data\<close>

text \<open>
  Of a \<^verbatim>\<open>Data\<close> object the module reads the shape of the data matrix and whether it is
  discrete; the entries themselves only reach the external scorers.
\<close>

record Data =
  data_shape :: "nat \<times> nat"
  discrete :: bool

definition Data_n :: "Data \<Rightarrow> nat" where
  "Data_n dat = snd (data_shape dat)"

definition Data_N :: "Data \<Rightarrow> nat" where
  "Data_N dat = fst (data_shape dat)"

section \<open>Class LocalScore\<close>

text \<open>
  The attributes of a \<^verbatim>\<open>LocalScore\<close> object. \<open>ls_scorer\<close> is the method
  \<^verbatim>\<open>self.scorer.local\<close> of the external oracle (BDeu or BGe), absent when the score
  name is neither; \<open>ls_prior_table\<close> is \<^verbatim>\<open>self._prior\<close>, which exists only after
  \<^verbatim>\<open>_precompute_prior\<close> has run under the fair prior. A parent set is the sequence
  (tuple or array) the callers pass.
\<close>

type_synonym scorer = "int \<Rightarrow> int list \<Rightarrow> fl"

record LocalScore =
  ls_data :: Data
  ls_score_name :: string
  ls_prior_name :: string
  ls_maxid :: int
  ls_prior_table :: "fl list option"
  ls_scorer :: "scorer option"

text \<open>
  \<^verbatim>\<open>_precompute_prior\<close>. \<open>comb\<close> is the helper of \<^verbatim>\<open>utils.math_utils\<close>, which is not
  part of the source at hand and is taken as a parameter; \<^verbatim>\<open>float\<close> of its result is
  read as a real.
\<close>

definition LocalScore_precompute_prior :: "(int \<Rightarrow> int \<Rightarrow> int) \<Rightarrow> LocalScore \<Rightarrow> LocalScore" where
  "LocalScore_precompute_prior comb ls =
     (if ls_prior_name ls = ''fair''
      then ls\<lparr>ls_prior_table :=
             Some (map (\<lambda>k. fl_neg (np_log (real_of_int (comb (int (Data_n (ls_data ls)) - 1) k))))
                       (py_range (int (Data_n (ls_data ls)))))\<rparr>
      else ls)"

text \<open>
  \<^verbatim>\<open>__init__\<close>: the prior table is computed here, once; the scorer is built by the
  external constructors \<open>BDeu\<close> and \<open>BGe\<close> (parameters), chosen by the score name.
\<close>

definition LocalScore_init ::
  "(int \<Rightarrow> int \<Rightarrow> int) \<Rightarrow> (Data \<Rightarrow> int \<Rightarrow> scorer) \<Rightarrow> (Data \<Rightarrow> int \<Rightarrow> scorer) \<Rightarrow>
   Data \<Rightarrow> string \<Rightarrow> string \<Rightarrow> int \<Rightarrow> LocalScore" where
  "LocalScore_init comb BDeu BGe dat score_name prior_name maxid =
     (let ls = LocalScore_precompute_prior comb
                 \<lparr>ls_data = dat, ls_score_name = score_name, ls_prior_name = prior_name,
                  ls_maxid = maxid, ls_prior_table = None, ls_scorer = None\<rparr>
      in if score_name = ''bdeu'' then ls\<lparr>ls_scorer := Some (BDeu dat maxid)\<rparr>
         else if score_name = ''bge'' then ls\<lparr>ls_scorer := Some (BGe dat maxid)\<rparr>
         else ls)"

text \<open>
  \<^verbatim>\<open>_prior_fair\<close> indexes the numpy table (IndexError past its end; the indegree is a
  length, never negative); \<^verbatim>\<open>_prior_unif\<close> is the integer 0.
\<close>

definition LocalScore_prior_fair :: "LocalScore \<Rightarrow> nat \<Rightarrow> error + fl" where
  "LocalScore_prior_fair ls indegree =
     (case ls_prior_table ls of
        None \<Rightarrow> Inl AttributeError
      | Some tbl \<Rightarrow> if indegree < length tbl then Inr (tbl ! indegree) else Inl IndexError)"

definition LocalScore_prior_unif :: "LocalScore \<Rightarrow> nat \<Rightarrow> error + fl" where
  "LocalScore_prior_unif ls indegree = Inr (Fin 0)"

text \<open>
  \<^verbatim>\<open>_local\<close>: the oracle is called first, then the prior function is looked up in
  \<^verbatim>\<open>self.priorf\<close> (KeyError for a name that is neither fair nor unif) and called.
\<close>

definition LocalScore_local_unsafe :: "LocalScore \<Rightarrow> int \<Rightarrow> int list \<Rightarrow> error + fl" where
  "LocalScore_local_unsafe ls v pset =
     (case ls_scorer ls of
        None \<Rightarrow> Inl AttributeError
      | Some f \<Rightarrow>
          (let raw = f v pset in
           (case (if ls_prior_name ls = ''fair'' then LocalScore_prior_fair ls (length pset)
                  else if ls_prior_name ls = ''unif'' then LocalScore_prior_unif ls (length pset)
                  else Inl KeyError) of
              Inl e \<Rightarrow> Inl e
            | Inr p \<Rightarrow> Inr (fl_add raw p))))"

text \<open>\<^verbatim>\<open>local\<close>, the checked version.\<close>

definition LocalScore_local :: "LocalScore \<Rightarrow> int \<Rightarrow> int list \<Rightarrow> error + fl" where
  "LocalScore_local ls v pset =
     (if v \<in> set pset then Inl IndexError
      else if (0 \<le> v \<and> v < int (Data_n (ls_data ls))) \<and> length pset = 0
           then LocalScore_local_unsafe ls v pset
      else (case py_min pset of
              Inl e \<Rightarrow> Inl e
            | Inr lo \<Rightarrow>
                (if min v lo < 0 then Inl IndexError
                 else (case py_max pset of
                         Inl e \<Rightarrow> Inl e
                       | Inr hi \<Rightarrow>
                           (if max v hi \<ge> int (Data_n (ls_data ls)) then Inl IndexError
                            else LocalScore_local_unsafe ls v pset)))))"

section \<open>Collaborators of class Score\<close>

text \<open>
  The candidate parents \<^verbatim>\<open>C\<close>: a Python dict from each node to the tuple of its
  candidates, kept as the list of its items (the keys of a dict are distinct).
\<close>

type_synonym dict = "(int \<times> int list) list"

text \<open>
  What a call does besides returning: it may draw from numpy's global random generator,
  and it may call one of the caches or the sampler. A \<open>world\<close> holds the exponential
  draws still to come (\<open>rng w 0\<close> is the next one) and the trace of the calls made so far,
  oldest first. The trace is what makes "the cache is queried" and "a fresh draw" facts
  of the model.
\<close>

datatype event =
    Exponential real
  | CR_sum int nat "nat option"
  | CR_sample_pset int nat nat fl
  | CC_sum int "int set" "int set" "fl option"
  | CC_sample_pset int "int set" "int set" fl
  | MCMC_sample

record world =
  rng :: "nat \<Rightarrow> real"
  trace :: "event list"

text \<open>\<^verbatim>\<open>np.random.exponential()\<close>: the next draw is consumed and logged.\<close>

definition exponential :: "world \<Rightarrow> real \<times> world" where
  "exponential w =
     (rng w 0, \<lparr>rng = (\<lambda>i. rng w (Suc i)), trace = trace w @ [Exponential (rng w 0)]\<rparr>)"

text \<open>
  The two caches of \<^verbatim>\<open>weight_sum\<close> are not part of the source at hand. An object is
  the pair of its methods, taken as given functions of their arguments (a query has no
  effect on a later answer). The restricted cache works on local bitmasks:
  \<^verbatim>\<open>sum(v, U_bm)\<close> or \<^verbatim>\<open>sum(v, U_bm, T_bm)\<close>, and \<^verbatim>\<open>sample_pset(v, U_bm, T_bm, threshold)\<close>,
  which returns a mask. The complement cache works on sets of variables:
  \<^verbatim>\<open>sum(v, U, T)\<close> or \<^verbatim>\<open>sum(v, U, T, W_prime)\<close>, and \<^verbatim>\<open>sample_pset(v, U, T, threshold)\<close>,
  which returns a parent set and its score.
\<close>

record CandidateRestrictedScore =
  c_r_sum :: "int \<Rightarrow> nat \<Rightarrow> nat option \<Rightarrow> fl"
  c_r_sample_pset :: "int \<Rightarrow> nat \<Rightarrow> nat \<Rightarrow> fl \<Rightarrow> nat"

record CandidateComplementScore =
  c_c_sum :: "int \<Rightarrow> int set \<Rightarrow> int set \<Rightarrow> fl option \<Rightarrow> fl"
  c_c_sample_pset :: "int \<Rightarrow> int set \<Rightarrow> int set \<Rightarrow> fl \<Rightarrow> int set \<times> fl"

text \<open>
  Modelled from the spec: \<^verbatim>\<open>CandidateComplementScore.sum\<close> (module \<^verbatim>\<open>weight_sum\<close>) is
  missing. The spec has the complement cache answer \<open>sum(v, U, T)\<close>, the log-sum-exp
  \<open>W_complement\<close> over the parent sets outside the candidates, and has the aggregator's
  result be \<open>logaddexp(W_restricted, W_complement)\<close>; \<^verbatim>\<open>Score.sum\<close> obtains that result
  from the call with the fourth argument \<open>W_prime = W_restricted\<close>, whose default is
  \<open>-inf\<close>. \<open>wc\<close> is the complement weight.
\<close>

definition CandidateComplementScore_sum ::
  "(int \<Rightarrow> int set \<Rightarrow> int set \<Rightarrow> fl) \<Rightarrow> int \<Rightarrow> int set \<Rightarrow> int set \<Rightarrow> fl option \<Rightarrow> fl" where
  "CandidateComplementScore_sum wc v U T W_prime =
     logaddexp (case W_prime of None \<Rightarrow> NInf | Some W \<Rightarrow> W) (wc v U T)"

text \<open>
  Modelled from the spec: \<^verbatim>\<open>bm\<close> and \<^verbatim>\<open>bm_to_ints\<close> (module \<^verbatim>\<open>utils.bitmap\<close>) are missing.
  The bitset codec translates between a set of variables and a bit vector relative to a
  node's candidates: bit \<open>i\<close> of a local mask stands for \<open>C[v][i]\<close>. \<open>bm S idx\<close> is the mask
  of \<open>S\<close> relative to \<open>idx\<close>; \<open>bm_to_ints m\<close> lists the set bits of \<open>m\<close> in increasing order
  (a set bit \<open>i\<close> of \<open>m\<close> has \<open>2 ^ i \<le> m\<close>, hence \<open>i < m\<close>).
\<close>

definition bm :: "int set \<Rightarrow> int list \<Rightarrow> nat" where
  "bm S idx = (\<Sum>i\<leftarrow>[0..<length idx]. if idx ! i \<in> S then 2 ^ i else 0)"

definition bm_to_ints :: "nat \<Rightarrow> nat list" where
  "bm_to_ints m = filter (\<lambda>i. bit m i) [0..<m]"

text \<open>The events that are steps of the sampler.\<close>

fun is_sampler_step :: "event \<Rightarrow> bool" where
  "is_sampler_step MCMC_sample = True"
| "is_sampler_step (Exponential x) = False"
| "is_sampler_step (CR_sum v U_bm T_bm) = False"
| "is_sampler_step (CR_sample_pset v U_bm T_bm t) = False"
| "is_sampler_step (CC_sum v U T W) = False"
| "is_sampler_step (CC_sample_pset v U T t) = False"

section \<open>Class Score\<close>

record Score =
  C :: dict
  score_array :: "fl list list"
  c_r_score :: CandidateRestrictedScore
  c_c_score :: "CandidateComplementScore option"

text \<open>\<^verbatim>\<open>self.n = len(self.C)\<close>, set by \<^verbatim>\<open>__init__\<close>.\<close>

definition Score_n :: "Score \<Rightarrow> nat" where
  "Score_n s = length (C s)"

text \<open>The calls to the caches, each logged with its arguments.\<close>

definition c_r_score_sum :: "Score \<Rightarrow> int \<Rightarrow> nat \<Rightarrow> nat option \<Rightarrow> world \<Rightarrow> fl \<times> world" where
  "c_r_score_sum s v U_bm T_bm w =
     (c_r_sum (c_r_score s) v U_bm T_bm, w\<lparr>trace := trace w @ [CR_sum v U_bm T_bm]\<rparr>)"

definition c_r_score_sample_pset ::
  "Score \<Rightarrow> int \<Rightarrow> nat \<Rightarrow> nat \<Rightarrow> fl \<Rightarrow> world \<Rightarrow> nat \<times> world" where
  "c_r_score_sample_pset s v U_bm T_bm threshold w =
     (c_r_sample_pset (c_r_score s) v U_bm T_bm threshold,
      w\<lparr>trace := trace w @ [CR_sample_pset v U_bm T_bm threshold]\<rparr>)"

definition c_c_score_sum ::
  "CandidateComplementScore \<Rightarrow> int \<Rightarrow> int set \<Rightarrow> int set \<Rightarrow> fl option \<Rightarrow> world \<Rightarrow> fl \<times> world" where
  "c_c_score_sum cc v U T W_prime w =
     (c_c_sum cc v U T W_prime, w\<lparr>trace := trace w @ [CC_sum v U T W_prime]\<rparr>)"

definition c_c_score_sample_pset ::
  "CandidateComplementScore \<Rightarrow> int \<Rightarrow> int set \<Rightarrow> int set \<Rightarrow> fl \<Rightarrow> world
     \<Rightarrow> (int set \<times> fl) \<times> world" where
  "c_c_score_sample_pset cc v U T threshold w =
     (c_c_sample_pset cc v U T threshold,
      w\<lparr>trace := trace w @ [CC_sample_pset v U T threshold]\<rparr>)"

text \<open>
  The restricted weight, computed by the same lines in \<^verbatim>\<open>sum\<close> (as \<^verbatim>\<open>W_prime\<close>) and in
  \<^verbatim>\<open>sample_pset\<close> (as \<^verbatim>\<open>w_crs\<close>): no query when \<open>T\<close> is not empty and its mask is 0.
\<close>

definition restricted_weight ::
  "Score \<Rightarrow> int \<Rightarrow> int set \<Rightarrow> nat \<Rightarrow> nat \<Rightarrow> world \<Rightarrow> fl \<times> world" where
  "restricted_weight s v T U_bm T_bm w =
     (if T \<noteq> {} then
        (if T_bm = 0 then (NInf, w) else c_r_score_sum s v U_bm (Some T_bm) w)
      else c_r_score_sum s v U_bm None w)"

text \<open>\<^verbatim>\<open>sum(v, U, T)\<close>; the default of \<open>T\<close> is the empty set.\<close>

definition Score_sum :: "Score \<Rightarrow> int \<Rightarrow> int set \<Rightarrow> int set \<Rightarrow> world \<Rightarrow> (error + fl) \<times> world" where
  "Score_sum s v U T w =
     (case map_of (C s) v of
        None \<Rightarrow> (Inl KeyError, w)
      | Some Cv \<Rightarrow>
          (let U_bm = bm (U \<inter> set Cv) Cv;
               T_bm = bm (T \<inter> set Cv) Cv;
               (W_prime, w1) = restricted_weight s v T U_bm T_bm w
           in (case c_c_score s of
                 None \<Rightarrow> (Inr W_prime, w1)
               | Some cc \<Rightarrow>
                   (if U \<subseteq> set Cv then (Inr W_prime, w1)
                    else if T \<noteq> {} then
                      (let (W, w2) = c_c_score_sum cc v U T (Some W_prime) w1 in (Inr W, w2))
                    else
                      (let (W, w2) = c_c_score_sum cc v U U (Some W_prime) w1 in (Inr W, w2))))))"

text \<open>
  Indexing: \<^verbatim>\<open>self.score_array[v][pset]\<close> is a numpy array read (a negative \<open>v\<close> counts
  from the end, the mask is never negative), \<^verbatim>\<open>self.C[v][i]\<close> a tuple read; both raise
  IndexError out of range.
\<close>

definition score_array_get :: "fl list list \<Rightarrow> int \<Rightarrow> nat \<Rightarrow> error + fl" where
  "score_array_get arr v pset =
     (let rows = int (length arr); r = (if v < 0 then rows + v else v)
      in if 0 \<le> r \<and> r < rows then
           (if pset < length (arr ! nat r) then Inr (arr ! nat r ! pset) else Inl IndexError)
         else Inl IndexError)"

fun candidates_at :: "int list \<Rightarrow> nat list \<Rightarrow> error + int list" where
  "candidates_at Cv [] = Inr []"
| "candidates_at Cv (i # js) =
     (if i < length Cv then
        (case candidates_at Cv js of Inl e \<Rightarrow> Inl e | Inr ps \<Rightarrow> Inr (Cv ! i # ps))
      else Inl IndexError)"

text \<open>\<^verbatim>\<open>sample_pset(v, U, T)\<close>.\<close>

definition Score_sample_pset ::
  "Score \<Rightarrow> int \<Rightarrow> int set \<Rightarrow> int set \<Rightarrow> world \<Rightarrow> (error + (int \<times> int set) \<times> fl) \<times> world" where
  "Score_sample_pset s v U T w =
     (case map_of (C s) v of
        None \<Rightarrow> (Inl KeyError, w)
      | Some Cv \<Rightarrow>
          (let U_bm = bm (U \<inter> set Cv) Cv;
               T_bm = bm (T \<inter> set Cv) Cv;
               (w_crs, w1) = restricted_weight s v T U_bm T_bm w;
               (w_ccs, w2) =
                 (case c_c_score s of
                    None \<Rightarrow> (NInf, w1)
                  | Some cc \<Rightarrow>
                      (if \<not> U \<subseteq> set Cv then
                         (if T \<noteq> {} then c_c_score_sum cc v U T None w1
                          else c_c_score_sum cc v U U None w1)
                       else (NInf, w1)));
               (E, w3) = exponential w2
           in if fl_less (Fin (- E)) (fl_sub w_crs (logaddexp w_ccs w_crs)) then
                (let (E1, w4) = exponential w3;
                     (pset, w5) = c_r_score_sample_pset s v U_bm T_bm (fl_sub w_crs (Fin E1)) w4
                 in (case score_array_get (score_array s) v pset of
                       Inl e \<Rightarrow> (Inl e, w5)
                     | Inr family_score \<Rightarrow>
                         (case candidates_at Cv (bm_to_ints pset) of
                            Inl e \<Rightarrow> (Inl e, w5)
                          | Inr ps \<Rightarrow> (Inr ((v, set ps), family_score), w5))))
              else
                (case c_c_score s of
                   None \<Rightarrow> (Inl AttributeError, w3)
                 | Some cc \<Rightarrow>
                     (let (E1, w4) = exponential w3;
                          ((pset, family_score), w5) =
                            (if T \<noteq> {} then
                               c_c_score_sample_pset cc v U T (fl_sub w_ccs (Fin E1)) w4
                             else c_c_score_sample_pset cc v U U (fl_sub w_ccs (Fin E1)) w4)
                      in (Inr ((v, pset), family_score), w5)))))"

text \<open>
  \<^verbatim>\<open>sample_DAG(R)\<close>. The inner loop leaves in \<open>i\<close> the index of the first block that
  holds \<open>v\<close>, or the last index when no block does; \<open>i\<close> is unbound when \<open>R\<close> is empty.
\<close>

fun find_block :: "int \<Rightarrow> int set list \<Rightarrow> nat \<Rightarrow> nat option" where
  "find_block v [] i = (if i = 0 then None else Some (i - 1))"
| "find_block v (B # Bs) i = (if v \<in> B then Some i else find_block v Bs (Suc i))"

definition sample_DAG_node ::
  "Score \<Rightarrow> int set list \<Rightarrow> int \<Rightarrow> world \<Rightarrow> (error + (int \<times> int set) \<times> fl) \<times> world" where
  "sample_DAG_node s R v w =
     (case find_block v R 0 of
        None \<Rightarrow> (Inl UnboundLocalError, w)
      | Some i \<Rightarrow>
          (if i = 0 then
             (case Score_sum s v {} {} w of
                (Inl e, w1) \<Rightarrow> (Inl e, w1)
              | (Inr family_score, w1) \<Rightarrow> (Inr ((v, {}), family_score), w1))
           else Score_sample_pset s v (\<Union> (set (take i R))) (R ! (i - 1)) w))"

fun sample_DAG_loop ::
  "Score \<Rightarrow> int set list \<Rightarrow> int list \<Rightarrow> (int \<times> int set) list \<Rightarrow> fl \<Rightarrow> world
     \<Rightarrow> (error + (int \<times> int set) list \<times> fl) \<times> world" where
  "sample_DAG_loop s R [] DAG DAG_score w = (Inr (DAG, DAG_score), w)"
| "sample_DAG_loop s R (v # vs) DAG DAG_score w =
     (case sample_DAG_node s R v w of
        (Inl e, w1) \<Rightarrow> (Inl e, w1)
      | (Inr (family, family_score), w1) \<Rightarrow>
          sample_DAG_loop s R vs (DAG @ [family]) (fl_add DAG_score family_score) w1)"

definition Score_sample_DAG ::
  "Score \<Rightarrow> int set list \<Rightarrow> world \<Rightarrow> (error + (int \<times> int set) list \<times> fl) \<times> world" where
  "Score_sample_DAG s R w = sample_DAG_loop s R (py_range (int (Score_n s))) [] (Fin 0) w"

text \<open>
  The ordered partitions of the spec's data model, for \<open>n\<close> variables: a sequence of
  non-empty, pairwise disjoint blocks whose union is \<open>{0, ..., n - 1}\<close>.
\<close>

definition ordered_partition :: "nat \<Rightarrow> int set list \<Rightarrow> bool" where
  "ordered_partition n R =
     ((\<forall>i<length R. R ! i \<noteq> {})
      \<and> (\<forall>i<length R. \<forall>j<length R. i \<noteq> j \<longrightarrow> R ! i \<inter> R ! j = {})
      \<and> \<Union> (set R) = {0..<int n})"

section \<open>Class Gadget\<close>

text \<open>
  The samplers of module \<^verbatim>\<open>mcmc\<close> are not part of the source at hand. A constructed
  \<^verbatim>\<open>PartitionMCMC\<close> is kept as the arguments of its constructor call (no temperature
  when the keyword is not passed); \<^verbatim>\<open>self.mcmc\<close> is either an \<^verbatim>\<open>MC3\<close> over a list of
  them or a single one.
\<close>

record PartitionMCMC =
  pm_C :: dict
  pm_score :: Score
  pm_d :: int
  pm_temperature :: "real option"

datatype mcmc = MC3 "PartitionMCMC list" | Single PartitionMCMC

text \<open>
  The attributes of a \<^verbatim>\<open>Gadget\<close> object that the modelled methods read or write:
  the data, the entries of \<^verbatim>\<open>self.params\<close>, whether \<^verbatim>\<open>self._logfile\<close> is truthy, and
  the structures built by the steps of \<^verbatim>\<open>sample()\<close>. \<open>g_C\<close>, \<open>g_score_array\<close> and
  \<open>g_c_r_score\<close> are set by the steps that run before the methods modelled here;
  an attribute that may be unset is an option.
\<close>

record Gadget =
  g_data :: Data
  params_score_name :: string
  params_K :: int
  params_d :: int
  params_mc3 :: int
  params_burn_in :: int
  params_iterations :: int
  params_thinning :: int
  params_score_sum_eps :: real
  g_logfile :: bool
  g_C :: dict
  g_score_array :: "fl list list"
  g_c_r_score :: CandidateRestrictedScore
  g_c_c_score :: "CandidateComplementScore option"
  g_l_score :: "LocalScore option"
  g_score :: "Score option"
  g_mcmc :: "mcmc option"

text \<open>
  \<^verbatim>\<open>_precompute_candidate_complement_scoring\<close>. \<open>mk_c_c_score\<close> is the constructor of
  \<^verbatim>\<open>CandidateComplementScore\<close>, called with the local score, \<open>C\<close>, \<open>d\<close> and \<open>eps\<close>; the
  local score is rebuilt with the default (fair) prior and deleted afterwards.
\<close>

definition Gadget_precompute_candidate_complement_scoring ::
  "(int \<Rightarrow> int \<Rightarrow> int) \<Rightarrow> (Data \<Rightarrow> int \<Rightarrow> scorer) \<Rightarrow> (Data \<Rightarrow> int \<Rightarrow> scorer) \<Rightarrow>
   (LocalScore \<Rightarrow> dict \<Rightarrow> int \<Rightarrow> real \<Rightarrow> CandidateComplementScore) \<Rightarrow> Gadget \<Rightarrow> Gadget" where
  "Gadget_precompute_candidate_complement_scoring comb BDeu BGe mk_c_c_score g =
     (let g1 = g\<lparr>g_c_c_score := None\<rparr>
      in if params_K g1 < int (Data_n (g_data g1)) - 1 then
           (let l_score = LocalScore_init comb BDeu BGe (g_data g1) (params_score_name g1)
                            ''fair'' (params_d g1);
                g2 = g1\<lparr>g_l_score := Some l_score\<rparr>;
                g3 = g2\<lparr>g_c_c_score :=
                        Some (mk_c_c_score l_score (g_C g2) (params_d g2) (params_score_sum_eps g2))\<rparr>
            in g3\<lparr>g_l_score := None\<rparr>)
         else g1)"

text \<open>\<^verbatim>\<open>_init_mcmc\<close>; \<^verbatim>\<open>i/(mc3 - 1)\<close> is Python's true division.\<close>

definition Gadget_init_mcmc :: "Gadget \<Rightarrow> Gadget" where
  "Gadget_init_mcmc g =
     (let score = \<lparr>C = g_C g, score_array = g_score_array g,
                   c_r_score = g_c_r_score g, c_c_score = g_c_c_score g\<rparr>;
          g1 = g\<lparr>g_score := Some score\<rparr>
      in if params_mc3 g1 > 1 then
           g1\<lparr>g_mcmc := Some (MC3
                 (map (\<lambda>i. \<lparr>pm_C = g_C g1, pm_score = score, pm_d = params_d g1,
                             pm_temperature =
                               Some (real_of_int i / real_of_int (params_mc3 g1 - 1))\<rparr>)
                      (py_range (params_mc3 g1))))\<rparr>
         else
           g1\<lparr>g_mcmc := Some (Single \<lparr>pm_C = g_C g1, pm_score = score, pm_d = params_d g1,
                                      pm_temperature = None\<rparr>)\<rparr>)"

text \<open>
  \<^verbatim>\<open>_run_mcmc\<close>. What the sampler does is not in the source: \<open>sample\<close> stands for
  \<^verbatim>\<open>self.mcmc.sample()\<close> followed by \<^verbatim>\<open>[0]\<close>, a function of the sampler's own state
  \<open>'m\<close> and of the random draws to come, which returns the ordered partition, the new
  state and the draws left. Each call is logged. The run's state is the pair of the
  sampler's state and the world.
\<close>

type_synonym 'm sampler = "'m \<Rightarrow> (nat \<Rightarrow> real) \<Rightarrow> int set list \<times> 'm \<times> (nat \<Rightarrow> real)"

definition mcmc_sample :: "'m sampler \<Rightarrow> 'm \<times> world \<Rightarrow> int set list \<times> ('m \<times> world)" where
  "mcmc_sample sample st =
     (case st of (m, w) \<Rightarrow>
        (case sample m (rng w) of
           (R, m1, r1) \<Rightarrow> (R, (m1, \<lparr>rng = r1, trace = trace w @ [MCMC_sample]\<rparr>))))"

text \<open>The run's state after one call of the sampler, its result dropped.\<close>

definition sampler_step :: "'m sampler \<Rightarrow> 'm \<times> world \<Rightarrow> 'm \<times> world" where
  "sampler_step sample st = snd (mcmc_sample sample st)"

text \<open>
  \<^verbatim>\<open>print_stats(i, header)\<close> writes to the log file; of it the model keeps the division
  by \<^verbatim>\<open>burn_in + iterations\<close>, the one failure visible in the source. Whether the
  statistics are due depends on the clock: \<open>due k\<close> says whether
  \<^verbatim>\<open>time.time() - timer > stats_period\<close> holds at the check of progress index \<open>k\<close> (\<open>i\<close>
  during burn-in, \<open>i + burn_in\<close> afterwards).
\<close>

definition print_stats :: "Gadget \<Rightarrow> int \<Rightarrow> bool \<Rightarrow> error + unit" where
  "print_stats g i header =
     (if params_burn_in g + params_iterations g = 0 then Inl ZeroDivisionError else Inr ())"

fun burn_in_loop ::
  "Gadget \<Rightarrow> 'm sampler \<Rightarrow> (int \<Rightarrow> bool) \<Rightarrow> int list \<Rightarrow> bool \<Rightarrow> 'm \<times> world
     \<Rightarrow> (error + bool) \<times> ('m \<times> world)" where
  "burn_in_loop g sample due [] first st = (Inr first, st)"
| "burn_in_loop g sample due (i # js) first st =
     (case mcmc_sample sample st of
        (R, st1) \<Rightarrow>
          (if g_logfile g \<and> due i then
             (case print_stats g i first of
                Inl e \<Rightarrow> (Inl e, st1)
              | Inr u \<Rightarrow> burn_in_loop g sample due js False st1)
           else burn_in_loop g sample due js first st1))"

text \<open>
  One pass of the second loop: the statistics, then \<^verbatim>\<open>i % thinning\<close> (a
  ZeroDivisionError when \<open>thinning\<close> is 0; Python's remainder has the sign of the
  divisor, as \<open>mod\<close> on \<open>int\<close>), then one step of the sampler, whose partition is turned
  into a DAG and appended only when the remainder is 0 (\<^verbatim>\<open>self.score\<close> is looked up
  before the sampler is called).
\<close>

fun sampling_loop ::
  "Gadget \<Rightarrow> 'm sampler \<Rightarrow> (int \<Rightarrow> bool) \<Rightarrow> int list \<Rightarrow> bool \<Rightarrow>
   (int \<times> int set) list list \<Rightarrow> fl list \<Rightarrow> 'm \<times> world
     \<Rightarrow> (error + bool \<times> (int \<times> int set) list list \<times> fl list) \<times> ('m \<times> world)" where
  "sampling_loop g sample due [] first dags dag_scores st =
     (Inr (first, dags, dag_scores), st)"
| "sampling_loop g sample due (i # js) first dags dag_scores st =
     (case (if g_logfile g \<and> due (i + params_burn_in g) then
              (case print_stats g (i + params_burn_in g) first of
                 Inl e \<Rightarrow> Inl e
               | Inr u \<Rightarrow> Inr False)
            else Inr first) of
        Inl e \<Rightarrow> (Inl e, st)
      | Inr first1 \<Rightarrow>
          (if params_thinning g = 0 then (Inl ZeroDivisionError, st)
           else if i mod params_thinning g = 0 then
             (case g_score g of
                None \<Rightarrow> (Inl AttributeError, st)
              | Some score \<Rightarrow>
                  (case mcmc_sample sample st of
                     (R, (m1, w1)) \<Rightarrow>
                       (case Score_sample_DAG score R w1 of
                          (Inl e, w2) \<Rightarrow> (Inl e, (m1, w2))
                        | (Inr (dag, score1), w2) \<Rightarrow>
                            sampling_loop g sample due js first1
                              (dags @ [dag]) (dag_scores @ [score1]) (m1, w2))))
           else
             (case mcmc_sample sample st of
                (R, st1) \<Rightarrow> sampling_loop g sample due js first1 dags dag_scores st1)))"

definition Gadget_run_mcmc ::
  "Gadget \<Rightarrow> 'm sampler \<Rightarrow> (int \<Rightarrow> bool) \<Rightarrow> 'm \<times> world
     \<Rightarrow> (error + (int \<times> int set) list list \<times> fl list) \<times> ('m \<times> world)" where
  "Gadget_run_mcmc g sample due st =
     (case burn_in_loop g sample due (py_range (params_burn_in g)) True st of
        (Inl e, st1) \<Rightarrow> (Inl e, st1)
      | (Inr first, st1) \<Rightarrow>
          (case sampling_loop g sample due (py_range (params_iterations g)) first [] [] st1 of
             (Inl e, st2) \<Rightarrow> (Inl e, st2)
           | (Inr (first2, dags, dag_scores), st2) \<Rightarrow>
               (if g_logfile g \<and> first2 then
                  (case print_stats g (params_burn_in g + params_iterations g) first2 of
                     Inl e \<Rightarrow> (Inl e, st2)
                   | Inr u \<Rightarrow> (Inr (dags, dag_scores), st2))
                else (Inr (dags, dag_scores), st2))))"

text \<open>
  The claim about thinning, in the spec's words: in sampling iteration \<open>i\<close> the sampler
  makes one step; when \<open>i mod thinning = 0\<close> the partition it returns is turned into a DAG
  and the pair of the DAG and its score is what the iteration records, otherwise the
  iteration records nothing. \<open>recorded_pass g score sample i st recs st'\<close> says that the
  iteration started in \<open>st\<close> records \<open>recs\<close> and ends in \<open>st'\<close>.
\<close>

definition recorded_pass ::
  "Gadget \<Rightarrow> Score \<Rightarrow> 'm sampler \<Rightarrow> int \<Rightarrow> 'm \<times> world \<Rightarrow>
   ((int \<times> int set) list \<times> fl) list \<Rightarrow> 'm \<times> world \<Rightarrow> bool" where
  "recorded_pass g score sample i st recs st' =
     (case mcmc_sample sample st of
        (R, (m1, w1)) \<Rightarrow>
          (if i mod params_thinning g = 0 then
             (case Score_sample_DAG score R w1 of
                (Inl e, w2) \<Rightarrow> False
              | (Inr (dag, score1), w2) \<Rightarrow> recs = [(dag, score1)] \<and> st' = (m1, w2))
           else recs = [] \<and> st' = (m1, w1)))"

section \<open>Verification\<close>

subsection \<open>LocalScore\<close>

lemma py_min_nonempty: "pset \<noteq> [] \<Longrightarrow> py_min pset = Inr (Min (set pset))"
proof (cases pset)
  case (Cons a list)
  then show ?thesis using Min.set_eq_fold[of a list] by (simp add: py_min_def)
qed simp

lemma py_max_nonempty: "pset \<noteq> [] \<Longrightarrow> py_max pset = Inr (Max (set pset))"
proof (cases pset)
  case (Cons a list)
  then show ?thesis using Max.set_eq_fold[of a list] by (simp add: py_max_def)
qed simp

lemma py_min_empty: "py_min [] = Inl ValueError"
  by (simp add: py_min_def)

lemma local_cases:
  "LocalScore_local ls v pset =
     (if v \<in> set pset then Inl IndexError
      else if pset = [] then
        (if 0 \<le> v \<and> v < int (Data_n (ls_data ls)) then LocalScore_local_unsafe ls v pset
         else Inl ValueError)
      else if v < 0 \<or> (\<exists>u \<in> set pset. u < 0) \<or> int (Data_n (ls_data ls)) \<le> v
              \<or> (\<exists>u \<in> set pset. int (Data_n (ls_data ls)) \<le> u) then Inl IndexError
      else LocalScore_local_unsafe ls v pset)"
proof (cases "pset = []")
  case True
  then show ?thesis by (simp add: LocalScore_local_def py_min_empty)
next
  case False
  then have fin: "finite (set pset)" "set pset \<noteq> {}" by simp_all
  have lo: "(min v (Min (set pset)) < 0) = (v < 0 \<or> (\<exists>u \<in> set pset. u < 0))"
    using fin by (simp add: min_less_iff_disj Min_less_iff)
  have hi: "(int (Data_n (ls_data ls)) \<le> max v (Max (set pset)))
            = (int (Data_n (ls_data ls)) \<le> v \<or> (\<exists>u \<in> set pset. int (Data_n (ls_data ls)) \<le> u))"
    using fin by (simp add: le_max_iff_disj Max_ge_iff)
  show ?thesis
    using False
    by (simp add: LocalScore_local_def py_min_nonempty py_max_nonempty lo hi)
qed

lemma local_invalid:
  assumes "v \<in> set pset \<or> v < 0 \<or> int (Data_n (ls_data ls)) \<le> v
           \<or> (\<exists>u \<in> set pset. u < 0 \<or> int (Data_n (ls_data ls)) \<le> u)"
  shows "\<exists>e. LocalScore_local ls v pset = Inl e"
  using assms unfolding local_cases by auto

lemma local_valid_eq:
  assumes "0 \<le> v" "v < int (Data_n (ls_data ls))" "v \<notin> set pset"
    and "\<forall>u \<in> set pset. 0 \<le> u \<and> u < int (Data_n (ls_data ls))"
  shows "LocalScore_local ls v pset = LocalScore_local_unsafe ls v pset"
  using assms unfolding local_cases by auto

lemma pset_length_bound:
  assumes "distinct pset" "set pset \<subseteq> {0..<int n} - {v}" "0 \<le> v" "v < int n"
  shows "length pset < n"
proof -
  have "card (set pset) \<le> card ({0..<int n} - {v})"
    using assms(2) by (intro card_mono) simp_all
  also have "\<dots> = n - 1" using assms(3,4) by simp
  finally have "length pset \<le> n - 1" using assms(1) by (simp add: distinct_card)
  moreover have "0 < n" using assms(3,4) by simp
  ultimately show ?thesis by simp
qed

lemma init_fields:
  "ls_data (LocalScore_init comb BDeu BGe dat sn pn mx) = dat"
  "ls_prior_name (LocalScore_init comb BDeu BGe dat sn pn mx) = pn"
  "ls_maxid (LocalScore_init comb BDeu BGe dat sn pn mx) = mx"
  "ls_score_name (LocalScore_init comb BDeu BGe dat sn pn mx) = sn"
  "ls_prior_table (LocalScore_init comb BDeu BGe dat sn pn mx) =
     (if pn = ''fair''
      then Some (map (\<lambda>k. fl_neg (np_log (real_of_int (comb (int (Data_n dat) - 1) k))))
                     (py_range (int (Data_n dat))))
      else None)"
  "ls_scorer (LocalScore_init comb BDeu BGe dat sn pn mx) =
     (if sn = ''bdeu'' then Some (BDeu dat mx) else if sn = ''bge'' then Some (BGe dat mx) else None)"
  by (simp_all add: LocalScore_init_def LocalScore_precompute_prior_def Let_def)

lemma fl_add_zero: "fl_add x (Fin 0) = x"
  by (cases x) simp_all

lemma range_length: "length (py_range k) = nat k"
  by (simp add: py_range_def)

lemma range_nth: "i < nat k \<Longrightarrow> py_range k ! i = int i"
  by (simp add: py_range_def)


lemma prior_table_nth:
  assumes "k < n" and "\<forall>j<n. comb (int n - 1) (int j) = int ((n - 1) choose j)"
  shows "map (\<lambda>k. fl_neg (np_log (real_of_int (comb (int n - 1) k)))) (py_range (int n)) ! k
         = Fin (- ln (real ((n - 1) choose k)))"
proof -
  have pos: "0 < (n - 1) choose k" using assms(1) by (simp add: zero_less_binomial_iff)
  have "comb (int n - 1) (int k) = int ((n - 1) choose k)" using assms by simp
  then show ?thesis using assms(1) pos by (simp add: py_range_def np_log_def)
qed

text \<open>
  Claim C6. \<^verbatim>\<open>LocalScore.local(v, pset)\<close> raises an error, and returns no score, whenever
  \<open>v\<close> is a member of \<open>pset\<close> or \<open>v\<close> or a member of \<open>pset\<close> lies outside \<open>[0, n)\<close>.
  Conversely, on an object built by \<^verbatim>\<open>__init__\<close> with a supported score and prior name,
  for \<open>v\<close> in \<open>[0, n)\<close> and a parent set (a sequence without repetition) inside
  \<open>[0, n) \ {v}\<close>, no error is raised and the score of \<^verbatim>\<open>_local\<close> is returned.
\<close>

theorem LocalScore_local_checks:
  "((v \<in> set pset \<or> v < 0 \<or> int (Data_n (ls_data ls)) \<le> v
      \<or> (\<exists>u \<in> set pset. u < 0 \<or> int (Data_n (ls_data ls)) \<le> u))
     \<longrightarrow> (\<exists>e. LocalScore_local ls v pset = Inl e))
   \<and> ((ls = LocalScore_init comb BDeu BGe dat sn pn mx
        \<and> (sn = ''bdeu'' \<or> sn = ''bge'') \<and> (pn = ''fair'' \<or> pn = ''unif'')
        \<and> 0 \<le> v \<and> v < int (Data_n dat)
        \<and> distinct pset \<and> set pset \<subseteq> {0..<int (Data_n dat)} - {v})
     \<longrightarrow> (\<exists>s. LocalScore_local ls v pset = Inr s
              \<and> LocalScore_local_unsafe ls v pset = Inr s))"
proof (intro conjI impI)
  assume "v \<in> set pset \<or> v < 0 \<or> int (Data_n (ls_data ls)) \<le> v
      \<or> (\<exists>u \<in> set pset. u < 0 \<or> int (Data_n (ls_data ls)) \<le> u)"
  then show "\<exists>e. LocalScore_local ls v pset = Inl e" by (rule local_invalid)
next
  assume a: "ls = LocalScore_init comb BDeu BGe dat sn pn mx
        \<and> (sn = ''bdeu'' \<or> sn = ''bge'') \<and> (pn = ''fair'' \<or> pn = ''unif'')
        \<and> 0 \<le> v \<and> v < int (Data_n dat)
        \<and> distinct pset \<and> set pset \<subseteq> {0..<int (Data_n dat)} - {v}"
  then have ls: "ls = LocalScore_init comb BDeu BGe dat sn pn mx" by simp
  have dat: "ls_data ls = dat" by (simp add: ls init_fields)
  have len: "length pset < Data_n dat"
    using a pset_length_bound[of pset "Data_n dat" v] by simp
  have "0 \<le> v" "v < int (Data_n (ls_data ls))" "v \<notin> set pset"
    "\<forall>u \<in> set pset. 0 \<le> u \<and> u < int (Data_n (ls_data ls))"
    using a unfolding dat by auto
  then have eq: "LocalScore_local ls v pset = LocalScore_local_unsafe ls v pset"
    by (rule local_valid_eq)
  obtain f where f: "ls_scorer ls = Some f" using a by (auto simp add: ls init_fields)
  have "\<exists>s. LocalScore_local_unsafe ls v pset = Inr s"
  proof (cases "pn = ''fair''")
    case True
    then show ?thesis using f len
      by (simp add: LocalScore_local_unsafe_def LocalScore_prior_fair_def ls init_fields py_range_def)
  next
    case False
    with a have "pn = ''unif''" by simp
    then show ?thesis using f
      by (simp add: LocalScore_local_unsafe_def LocalScore_prior_unif_def ls init_fields)
  qed
  with eq show "\<exists>s. LocalScore_local ls v pset = Inr s
              \<and> LocalScore_local_unsafe ls v pset = Inr s" by auto
qed

text \<open>
  Claim C10 (as amended). Under the fair prior, \<^verbatim>\<open>_local(v, P)\<close> with \<open>|P| < n\<close> is the
  oracle's score plus the penalty \<open>- log (C(n - 1, |P|))\<close>, read from the table that
  \<^verbatim>\<open>__init__\<close> computed; under the unif prior the penalty is 0. The penalty is part of
  every returned score, and it is zero, so that the returned score is the oracle's,
  when \<open>C(n - 1, |P|) = 1\<close>. \<open>comb\<close> is assumed to be the binomial coefficient.
\<close>

theorem LocalScore_local_unsafe_prior:
  assumes "sn = ''bdeu'' \<and> f = BDeu dat mx \<or> sn = ''bge'' \<and> f = BGe dat mx"
    and "length P < Data_n dat"
    and "\<forall>j<Data_n dat. comb (int (Data_n dat) - 1) (int j) = int ((Data_n dat - 1) choose j)"
  shows "ls_prior_table (LocalScore_init comb BDeu BGe dat sn ''fair'' mx)
           = Some (map (\<lambda>k. Fin (- ln (real ((Data_n dat - 1) choose k)))) [0..<Data_n dat])
         \<and> LocalScore_local_unsafe (LocalScore_init comb BDeu BGe dat sn ''fair'' mx) v P
           = Inr (fl_add (f v P) (Fin (- ln (real ((Data_n dat - 1) choose length P)))))
         \<and> LocalScore_local_unsafe (LocalScore_init comb BDeu BGe dat sn ''unif'' mx) v P
           = Inr (fl_add (f v P) (Fin 0))
         \<and> (((Data_n dat - 1) choose length P) = 1
              \<longrightarrow> LocalScore_local_unsafe (LocalScore_init comb BDeu BGe dat sn ''fair'' mx) v P
                    = Inr (f v P))"
proof -
  let ?n = "Data_n dat"
  let ?ls = "LocalScore_init comb BDeu BGe dat sn ''fair'' mx"
  have sc: "ls_scorer (LocalScore_init comb BDeu BGe dat sn pn mx) = Some f" for pn
    using assms(1) by (auto simp add: init_fields)
  have tbl: "ls_prior_table ?ls
           = Some (map (\<lambda>k. Fin (- ln (real ((?n - 1) choose k)))) [0..<?n])"
  proof -
    have "map (\<lambda>k. fl_neg (np_log (real_of_int (comb (int ?n - 1) k)))) (py_range (int ?n))
          = map (\<lambda>k. Fin (- ln (real ((?n - 1) choose k)))) [0..<?n]"
      using prior_table_nth[where n="?n" and comb=comb] assms(3)
      by (intro nth_equalityI) (simp_all add: py_range_def)
    then show ?thesis by (simp add: init_fields)
  qed
  have fair: "LocalScore_local_unsafe ?ls v P
           = Inr (fl_add (f v P) (Fin (- ln (real ((?n - 1) choose length P)))))"
    using assms(2) sc[of "''fair''"]
    by (simp add: LocalScore_local_unsafe_def LocalScore_prior_fair_def tbl init_fields(2))
  have unif: "LocalScore_local_unsafe (LocalScore_init comb BDeu BGe dat sn ''unif'' mx) v P
           = Inr (fl_add (f v P) (Fin 0))"
    using sc[of "''unif''"]
    by (simp add: LocalScore_local_unsafe_def LocalScore_prior_unif_def init_fields(2))
  have one: "((?n - 1) choose length P) = 1
              \<Longrightarrow> LocalScore_local_unsafe ?ls v P = Inr (f v P)"
    by (simp add: fair fl_add_zero)
  from tbl fair unif one show ?thesis by blast
qed

theorem LocalScore_local_checks_witness:
  "(0::int) \<in> set [0] \<and> (\<exists>e. LocalScore_local
        (LocalScore_init (\<lambda>n k. int (nat n choose nat k)) (\<lambda>d m v P. Fin 1) (\<lambda>d m v P. Fin 2)
           \<lparr>data_shape = (5, 3), discrete = True\<rparr> ''bdeu'' ''fair'' (- 1)) 0 [0] = Inl e)
   \<and> distinct [1, 2 :: int] \<and> set [1, 2 :: int] \<subseteq> {0..<3} - {0}
   \<and> (\<exists>s. LocalScore_local
        (LocalScore_init (\<lambda>n k. int (nat n choose nat k)) (\<lambda>d m v P. Fin 1) (\<lambda>d m v P. Fin 2)
           \<lparr>data_shape = (5, 3), discrete = True\<rparr> ''bdeu'' ''fair'' (- 1)) 0 [1, 2] = Inr s)"
  using LocalScore_local_checks[of 0 "[0]" "LocalScore_init (\<lambda>n k. int (nat n choose nat k)) (\<lambda>d m v P. Fin 1) (\<lambda>d m v P. Fin 2)
           \<lparr>data_shape = (5, 3), discrete = True\<rparr> ''bdeu'' ''fair'' (- 1)"]
    LocalScore_local_checks[of 0 "[1, 2]" "LocalScore_init (\<lambda>n k. int (nat n choose nat k)) (\<lambda>d m v P. Fin 1) (\<lambda>d m v P. Fin 2)
           \<lparr>data_shape = (5, 3), discrete = True\<rparr> ''bdeu'' ''fair'' (- 1)"
        "\<lambda>n k. int (nat n choose nat k)" "\<lambda>d m v P. Fin 1" "\<lambda>d m v P. Fin 2"
        "\<lparr>data_shape = (5, 3), discrete = True\<rparr>" "''bdeu''" "''fair''" "- 1"]
  by (auto simp add: Data_n_def init_fields)

theorem LocalScore_local_unsafe_prior_witness:
  "length ([1] :: int list) < 3
   \<and> LocalScore_local_unsafe
        (LocalScore_init (\<lambda>n k. int (nat n choose nat k)) (\<lambda>d m v P. Fin 1) (\<lambda>d m v P. Fin 2)
           \<lparr>data_shape = (5, 3), discrete = True\<rparr> ''bdeu'' ''fair'' (- 1)) 0 [1]
      = Inr (Fin (1 - ln 2))
   \<and> LocalScore_local_unsafe
        (LocalScore_init (\<lambda>n k. int (nat n choose nat k)) (\<lambda>d m v P. Fin 1) (\<lambda>d m v P. Fin 2)
           \<lparr>data_shape = (5, 3), discrete = True\<rparr> ''bdeu'' ''unif'' (- 1)) 0 [1]
      = Inr (Fin 1)"
  using LocalScore_local_unsafe_prior[of "''bdeu''" "\<lambda>v P. Fin 1" "\<lambda>d m v P. Fin 1"
      "\<lparr>data_shape = (5, 3), discrete = True\<rparr>" "- 1" "\<lambda>d m v P. Fin 2" "[1]"
      "\<lambda>n k. int (nat n choose nat k)" 0]
  by (simp add: Data_n_def)

text \<open>
  Claim C10 as stated says that under the fair prior the exposed score is never the raw
  oracle value. For the empty parent set the penalty is \<open>- log 1 = 0\<close> and the exposed
  score is the oracle's value.
\<close>

theorem LocalScore_local_unsafe_raw_counterexample:
  "\<exists>f. ls_scorer (LocalScore_init (\<lambda>n k. int (nat n choose nat k)) (\<lambda>d m v P. Fin 1)
               (\<lambda>d m v P. Fin 2) \<lparr>data_shape = (5, 3), discrete = True\<rparr> ''bdeu'' ''fair'' (- 1))
         = Some f
       \<and> LocalScore_local_unsafe
           (LocalScore_init (\<lambda>n k. int (nat n choose nat k)) (\<lambda>d m v P. Fin 1)
               (\<lambda>d m v P. Fin 2) \<lparr>data_shape = (5, 3), discrete = True\<rparr> ''bdeu'' ''fair'' (- 1))
           0 [] = Inr (f 0 [])"
  by (simp add: LocalScore_local_unsafe_def LocalScore_prior_fair_def init_fields py_range_def
      Data_n_def np_log_def)

subsection \<open>Score: sums and sampling of one parent set\<close>

lemma logaddexp_Fin: "logaddexp (Fin a) (Fin b) = Fin (ln (exp a + exp b))"
proof -
  have eq: "ln (exp x + exp x) = x + ln 2" for x :: real
  proof -
    have "exp x + exp x = exp x * 2" by simp
    then show ?thesis by (simp add: ln_mult_pos)
  qed
  have gen: "x + ln (1 + exp (y - x)) = ln (exp x + exp y)" for x y :: real
  proof -
    have pos: "0 < 1 + exp (y - x)" by (simp add: add_pos_pos)
    have "exp x + exp y = exp x * (1 + exp (y - x))"
      by (simp add: distrib_left flip: exp_add)
    then show ?thesis using pos by (simp only: ln_mult_pos exp_gt_zero ln_exp)
  qed
  show ?thesis
  proof (cases "a = b")
    case True
    then show ?thesis using eq[of b] by simp
  next
    case False
    show ?thesis
    proof (cases "0 < a - b")
      case True
      then show ?thesis using False gen[of a b] by simp
    next
      case neg: False
      then show ?thesis using False gen[of b a] by (simp add: add.commute)
    qed
  qed
qed

lemma logaddexp_commute: "logaddexp x y = logaddexp y x"
proof (cases x)
  case (Fin a)
  then show ?thesis
  proof (cases y)
    case (Fin b)
    show ?thesis unfolding \<open>x = Fin a\<close> Fin logaddexp_Fin by (simp add: add.commute)
  qed simp_all
qed (cases y; simp)+

lemma bm_empty: "bm {} idx = 0"
  by (simp add: bm_def)

lemma bit_nat_less: "bit (m::nat) i \<Longrightarrow> i < m"
proof -
  assume "bit m i"
  then have "2 ^ i \<le> m" by (simp add: bit_iff_odd) (metis div_less even_zero linorder_not_less)
  moreover have "i < 2 ^ i" by simp
  ultimately show ?thesis by linarith
qed

lemma set_bm_to_ints: "set (bm_to_ints m) = {i. bit m i}"
  by (auto simp add: bm_to_ints_def bit_nat_less)

lemma candidates_at_ok:
  "(\<forall>i \<in> set js. i < length Cv) \<Longrightarrow> candidates_at Cv js = Inr (map (\<lambda>i. Cv ! i) js)"
  by (induction js) simp_all

lemma restricted_weight_eq:
  "restricted_weight s v T U_bm T_bm w =
     (if T \<noteq> {} \<and> T_bm = 0 then (NInf, w)
      else (c_r_sum (c_r_score s) v U_bm (if T \<noteq> {} then Some T_bm else None),
            w\<lparr>trace := trace w @ [CR_sum v U_bm (if T \<noteq> {} then Some T_bm else None)]\<rparr>))"
  by (simp add: restricted_weight_def c_r_score_sum_def)

text \<open>
  Claim C9. For a node \<open>v\<close> of \<open>C\<close>, a set \<open>U\<close> and a non-empty \<open>T\<close> that has no member among
  the candidates of \<open>v\<close>: when the complement cache is absent or \<open>U\<close> lies inside the
  candidates, \<^verbatim>\<open>sum(v, U, T)\<close> returns \<open>-inf\<close> and leaves the world as it was, so neither
  cache has been queried.
\<close>

theorem Score_sum_T_outside_candidates:
  assumes "map_of (C s) v = Some Cv"
    and "T \<noteq> {}" and "T \<inter> set Cv = {}"
    and "c_c_score s = None \<or> U \<subseteq> set Cv"
  shows "Score_sum s v U T w = (Inr NInf, w)"
  using assms
  by (auto simp add: Score_sum_def restricted_weight_eq bm_empty split: option.splits)


theorem Score_sum_T_outside_candidates_witness:
  "Score_sum \<lparr>C = [(0, [1])], score_array = [[Fin 0, Fin 0]],
        c_r_score = \<lparr>c_r_sum = (\<lambda>v U_bm T_bm. Fin 5), c_r_sample_pset = (\<lambda>v U_bm T_bm t. 0)\<rparr>,
        c_c_score = None\<rparr>
      0 {1, 3} {2} \<lparr>rng = (\<lambda>i. 1), trace = []\<rparr>
   = (Inr NInf, \<lparr>rng = (\<lambda>i. 1), trace = []\<rparr>)"
  using Score_sum_T_outside_candidates[where
      s = "\<lparr>C = [(0, [1])], score_array = [[Fin 0, Fin 0]],
        c_r_score = \<lparr>c_r_sum = (\<lambda>v U_bm T_bm. Fin 5), c_r_sample_pset = (\<lambda>v U_bm T_bm t. 0)\<rparr>,
        c_c_score = None\<rparr>"
      and v = 0 and Cv = "[1]" and U = "{1, 3}" and T = "{2}"
      and w = "\<lparr>rng = (\<lambda>i. 1), trace = []\<rparr>"]
  by simp

text \<open>
  Claim C2 (as amended). \<^verbatim>\<open>sum(v, U, T)\<close> restricts \<open>U\<close> and \<open>T\<close> to the candidates of \<open>v\<close>
  through the codec. When \<open>T\<close> is not empty and its mask is 0, the restricted weight is
  \<open>-inf\<close> and the restricted cache is not queried; otherwise the restricted cache is
  queried once, with the masks, for the restricted weight. When the complement cache is
  absent or \<open>U\<close> lies inside the candidates, that weight is returned unchanged and nothing
  else is called; otherwise the complement cache is called once with the restricted
  weight, and (the complement cache being as the spec has it) the result is the
  \<open>logaddexp\<close> of the restricted and the complement weight.
\<close>

theorem Score_sum_combines:
  assumes "map_of (C s) v = Some Cv"
    and "U_bm = bm (U \<inter> set Cv) Cv" and "T_bm = bm (T \<inter> set Cv) Cv"
    and "no_query = (T \<noteq> {} \<and> T_bm = 0)"
    and "T_arg = (if T \<noteq> {} then Some T_bm else None)"
    and "W_restricted = (if no_query then NInf else c_r_sum (c_r_score s) v U_bm T_arg)"
    and "restricted_only = (c_c_score s = None \<or> U \<subseteq> set Cv)"
    and "T' = (if T \<noteq> {} then T else U)"
    and "\<forall>cc. c_c_score s = Some cc \<longrightarrow> c_c_sum cc = CandidateComplementScore_sum wc"
  shows "Score_sum s v U T w =
           (Inr (if restricted_only then W_restricted
                 else logaddexp W_restricted (wc v U T')),
            w\<lparr>trace := trace w
                 @ (if no_query then [] else [CR_sum v U_bm T_arg])
                 @ (if restricted_only then [] else [CC_sum v U T' (Some W_restricted)])\<rparr>)"
  using assms
  by (auto simp add: Score_sum_def restricted_weight_eq c_c_score_sum_def Let_def
      CandidateComplementScore_sum_def logaddexp_commute split: option.splits)

text \<open>
  Claim C2 as stated has every call query the restricted cache. With candidates \<open>[1]\<close>
  for node 0, \<open>U = {1, 2}\<close> and \<open>T = {2}\<close>, the only call made is the one to the complement
  cache, with \<open>W_prime = -inf\<close>.
\<close>

theorem Score_sum_no_query_counterexample:
  "Score_sum \<lparr>C = [(0, [1])], score_array = [[Fin 0, Fin 0]],
        c_r_score = \<lparr>c_r_sum = (\<lambda>v U_bm T_bm. Fin 5), c_r_sample_pset = (\<lambda>v U_bm T_bm t. 0)\<rparr>,
        c_c_score = Some \<lparr>c_c_sum = CandidateComplementScore_sum (\<lambda>v U T. Fin 7),
                          c_c_sample_pset = (\<lambda>v U T t. ({}, Fin 0))\<rparr>\<rparr>
      0 {1, 2} {2} \<lparr>rng = (\<lambda>i. 1), trace = []\<rparr>
   = (Inr (Fin 7), \<lparr>rng = (\<lambda>i. 1), trace = [CC_sum 0 {1, 2} {2} (Some NInf)]\<rparr>)"
  by (simp add: Score_sum_def restricted_weight_eq c_c_score_sum_def bm_def Let_def
      CandidateComplementScore_sum_def)

theorem Score_sum_combines_witness:
  "Score_sum \<lparr>C = [(0, [1])], score_array = [[Fin 0, Fin 0]],
        c_r_score = \<lparr>c_r_sum = (\<lambda>v U_bm T_bm. Fin 5), c_r_sample_pset = (\<lambda>v U_bm T_bm t. 0)\<rparr>,
        c_c_score = Some \<lparr>c_c_sum = CandidateComplementScore_sum (\<lambda>v U T. NInf),
                          c_c_sample_pset = (\<lambda>v U T t. ({}, Fin 0))\<rparr>\<rparr>
      0 {1, 2} {1} \<lparr>rng = (\<lambda>i. 1), trace = []\<rparr>
   = (Inr (Fin 5), \<lparr>rng = (\<lambda>i. 1),
         trace = [CR_sum 0 1 (Some 1), CC_sum 0 {1, 2} {1} (Some (Fin 5))]\<rparr>)"
  using Score_sum_combines[of
      "\<lparr>C = [(0, [1])], score_array = [[Fin 0, Fin 0]],
        c_r_score = \<lparr>c_r_sum = (\<lambda>v U_bm T_bm. Fin 5), c_r_sample_pset = (\<lambda>v U_bm T_bm t. 0)\<rparr>,
        c_c_score = Some \<lparr>c_c_sum = CandidateComplementScore_sum (\<lambda>v U T. NInf),
                          c_c_sample_pset = (\<lambda>v U T t. ({}, Fin 0))\<rparr>\<rparr>"
      0 "[1]" 1 "{1, 2}" 1 "{1}" False "Some 1" "Fin 5" False "{1}" "\<lambda>v U T. NInf"
      "\<lparr>rng = (\<lambda>i. 1), trace = []\<rparr>"]
  by (simp add: bm_def)


lemma restricted_weight_rng:
  "restricted_weight s v T U_bm T_bm w = (x, w1) \<Longrightarrow> rng w1 = rng w"
  by (auto simp add: restricted_weight_eq split: if_splits)

lemma candidates_at_error: "candidates_at Cv js = Inl e \<Longrightarrow> e = IndexError"
  by (induction js arbitrary: e) (auto split: if_splits sum.splits)

lemma score_array_get_error: "score_array_get arr v pset = Inl e \<Longrightarrow> e = IndexError"
  by (auto simp add: score_array_get_def Let_def split: if_splits)

lemma Score_sample_pset_race_aux:
  assumes "map_of (C s) v = Some Cv"
    and "restricted_weight s v T (bm (U \<inter> set Cv) Cv) (bm (T \<inter> set Cv) Cv) w = (W_restricted, w1)"
  shows
    "let U_bm = bm (U \<inter> set Cv) Cv;
         T_bm = bm (T \<inter> set Cv) Cv;
         T' = (if T \<noteq> {} then T else U);
         complement_queried = (c_c_score s \<noteq> None \<and> \<not> U \<subseteq> set Cv);
         W_complement = (case c_c_score s of
                           None \<Rightarrow> NInf
                         | Some cc \<Rightarrow> if U \<subseteq> set Cv then NInf else c_c_sum cc v U T' None);
         E = rng w 0;
         E1 = rng w 1;
         restricted = fl_less (Fin (- E)) (fl_sub W_restricted (logaddexp W_restricted W_complement));
         result = Score_sample_pset s v U T w
     in trace (snd result) =
          trace w1 @ (if complement_queried then [CC_sum v U T' None] else [])
          @ [Exponential E]
          @ (if restricted then
               [Exponential E1, CR_sample_pset v U_bm T_bm (fl_sub W_restricted (Fin E1))]
             else if c_c_score s = None then []
             else [Exponential E1, CC_sample_pset v U T' (fl_sub W_complement (Fin E1))])
        \<and> (if restricted then
              fst result =
                (let pset = c_r_sample_pset (c_r_score s) v U_bm T_bm (fl_sub W_restricted (Fin E1))
                 in case score_array_get (score_array s) v pset of
                      Inl e \<Rightarrow> Inl e
                    | Inr family_score \<Rightarrow>
                        (case candidates_at Cv (bm_to_ints pset) of
                           Inl e \<Rightarrow> Inl e
                         | Inr ps \<Rightarrow> Inr ((v, set ps), family_score)))
            else
              fst result =
                (case c_c_score s of
                   None \<Rightarrow> Inl AttributeError
                 | Some cc \<Rightarrow>
                     (case c_c_sample_pset cc v U T' (fl_sub W_complement (Fin E1)) of
                        (pset, family_score) \<Rightarrow> Inr ((v, pset), family_score))))"
proof -
  have r: "rng w1 = rng w" using assms(2) by (rule restricted_weight_rng)
  show ?thesis
  proof (cases "c_c_score s")
    case None
    then show ?thesis using assms r
      by (simp add: Score_sample_pset_def Let_def exponential_def c_r_score_sample_pset_def
          logaddexp_commute split: sum.splits)
  next
    case (Some cc)
    show ?thesis
    proof (cases "U \<subseteq> set Cv")
      case True
      then show ?thesis using assms r Some
        by (simp add: Score_sample_pset_def Let_def exponential_def c_r_score_sample_pset_def
            c_c_score_sample_pset_def logaddexp_commute split: sum.splits prod.splits)
    next
      case False
      then show ?thesis using assms r Some
        by (simp add: Score_sample_pset_def Let_def exponential_def c_r_score_sample_pset_def
            c_c_score_sample_pset_def c_c_score_sum_def logaddexp_commute
            split: sum.splits prod.splits)
    qed
  qed
qed








text \<open>
  Claim C8. When the complement cache is absent or \<open>U\<close> lies inside the candidates of
  \<open>v\<close>, the restricted weight is finite and the first draw is positive,
  \<^verbatim>\<open>sample_pset\<close> takes the restricted branch: the calls after the restricted weight are
  the two draws and the restricted cache's \<^verbatim>\<open>sample_pset\<close>, and the result is never
  the AttributeError of the absent cache. Where the sampled mask indexes the score array
  and the candidates in range, the family is \<open>(v, {C[v][i] | bit i of the mask})\<close> and its
  score is \<open>score_array[v][mask]\<close>.
\<close>

theorem Score_sample_pset_restricted_only:
  assumes "map_of (C s) v = Some Cv"
    and "c_c_score s = None \<or> U \<subseteq> set Cv"
    and "restricted_weight s v T (bm (U \<inter> set Cv) Cv) (bm (T \<inter> set Cv) Cv) w = (Fin x, w1)"
    and "0 < rng w 0"
  shows
    "let U_bm = bm (U \<inter> set Cv) Cv;
         T_bm = bm (T \<inter> set Cv) Cv;
         threshold = Fin (x - rng w 1);
         mask = c_r_sample_pset (c_r_score s) v U_bm T_bm threshold;
         result = Score_sample_pset s v U T w
     in trace (snd result) =
          trace w1 @ [Exponential (rng w 0), Exponential (rng w 1),
                      CR_sample_pset v U_bm T_bm threshold]
        \<and> fst result \<noteq> Inl AttributeError
        \<and> ((0 \<le> v \<and> nat v < length (score_array s) \<and> mask < length (score_array s ! nat v)
             \<and> (\<forall>i. bit mask i \<longrightarrow> i < length Cv))
            \<longrightarrow> fst result = Inr ((v, {Cv ! i |i. bit mask i}), score_array s ! nat v ! mask))"
proof -
  let ?U = "bm (U \<inter> set Cv) Cv" and ?T = "bm (T \<inter> set Cv) Cv"
  let ?mask = "c_r_sample_pset (c_r_score s) v ?U ?T (Fin (x - rng w 1))"
  let ?res = "Score_sample_pset s v U T w"
  have wc: "(case c_c_score s of None \<Rightarrow> NInf
             | Some cc \<Rightarrow> if U \<subseteq> set Cv then NInf
                          else c_c_sum cc v U (if T \<noteq> {} then T else U) None) = NInf"
    using assms(2) by (auto split: option.splits)
  have nq: "\<not> (c_c_score s \<noteq> None \<and> \<not> U \<subseteq> set Cv)" using assms(2) by auto
  note race = Score_sample_pset_race_aux[OF assms(1) assms(3)]
  have sel: "fl_less (Fin (- rng w 0)) (fl_sub (Fin x) (logaddexp (Fin x) NInf))"
    using assms(4) by (simp add: fl_sub_def)
  have tr: "trace (snd ?res) = trace w1 @ [Exponential (rng w 0), Exponential (rng w 1),
                      CR_sample_pset v ?U ?T (Fin (x - rng w 1))]"
    using race sel nq by (simp add: Let_def wc fl_sub_def del: One_nat_def)
  have val: "fst ?res = (case score_array_get (score_array s) v ?mask of
                      Inl e \<Rightarrow> Inl e
                    | Inr family_score \<Rightarrow>
                        (case candidates_at Cv (bm_to_ints ?mask) of
                           Inl e \<Rightarrow> Inl e
                         | Inr ps \<Rightarrow> Inr ((v, set ps), family_score)))"
    using race sel by (simp add: Let_def wc fl_sub_def del: One_nat_def)
  have noattr: "fst ?res \<noteq> Inl AttributeError"
    unfolding val
    by (auto split: sum.splits dest: score_array_get_error candidates_at_error)
  have ok: "fst ?res = Inr ((v, {Cv ! i |i. bit ?mask i}), score_array s ! nat v ! ?mask)"
    if "0 \<le> v" "nat v < length (score_array s)" "?mask < length (score_array s ! nat v)"
      "\<forall>i. bit ?mask i \<longrightarrow> i < length Cv"
  proof -
    have g: "score_array_get (score_array s) v ?mask = Inr (score_array s ! nat v ! ?mask)"
      using that(1,2,3) by (simp add: score_array_get_def Let_def)
    have c: "candidates_at Cv (bm_to_ints ?mask) = Inr (map (\<lambda>i. Cv ! i) (bm_to_ints ?mask))"
      using that(4) by (intro candidates_at_ok) (simp add: set_bm_to_ints)
    have "set (map (\<lambda>i. Cv ! i) (bm_to_ints ?mask)) = {Cv ! i |i. bit ?mask i}"
      by (auto simp add: set_bm_to_ints)
    then show ?thesis unfolding val g c by simp
  qed
  show ?thesis using tr noattr ok by (simp add: Let_def del: One_nat_def)
qed


lemma bit_three: "bit (3::nat) i \<longleftrightarrow> i < 2"
proof -
  have "bit (3::nat) i \<longleftrightarrow> bit (2 ^ 2 - 1 :: nat) i" by simp
  also have "\<dots> \<longleftrightarrow> i < 2" by (simp only: bit_mask_iff flip: mask_eq_exp_minus_1) simp
  finally show ?thesis .
qed

theorem Score_sample_pset_restricted_only_witness:
  "trace (snd (Score_sample_pset
      \<lparr>C = [(0, [1, 2])], score_array = [[Fin 0, Fin 1, Fin 2, Fin 3]],
        c_r_score = \<lparr>c_r_sum = (\<lambda>v U_bm T_bm. Fin 5), c_r_sample_pset = (\<lambda>v U_bm T_bm t. 3)\<rparr>,
        c_c_score = None\<rparr>
      0 {1, 2} {} \<lparr>rng = (\<lambda>i. 1), trace = []\<rparr>))
     = [CR_sum 0 3 None, Exponential 1, Exponential 1, CR_sample_pset 0 3 0 (Fin 4)]
   \<and> fst (Score_sample_pset
      \<lparr>C = [(0, [1, 2])], score_array = [[Fin 0, Fin 1, Fin 2, Fin 3]],
        c_r_score = \<lparr>c_r_sum = (\<lambda>v U_bm T_bm. Fin 5), c_r_sample_pset = (\<lambda>v U_bm T_bm t. 3)\<rparr>,
        c_c_score = None\<rparr>
      0 {1, 2} {} \<lparr>rng = (\<lambda>i. 1), trace = []\<rparr>)
     = Inr ((0, {1, 2}), Fin 3)"
proof -
  have fam: "{[1, 2 :: int] ! i |i. bit (3::nat) i} = {1, 2}"
  proof -
    have "{i. bit (3::nat) i} = {0, 1}"
      by (auto simp add: bit_three)
    moreover have "{[1, 2 :: int] ! i |i. bit (3::nat) i}
                   = (\<lambda>i. [1, 2 :: int] ! i) ` {i. bit (3::nat) i}"
      by blast
    ultimately show ?thesis by simp
  qed
  have inr: "\<forall>i. bit (3::nat) i \<longrightarrow> i < length [1, 2 :: int]"
    by (simp add: bit_three)
  show ?thesis
    using Score_sample_pset_restricted_only[where
      s = "\<lparr>C = [(0, [1, 2])], score_array = [[Fin 0, Fin 1, Fin 2, Fin 3]],
        c_r_score = \<lparr>c_r_sum = (\<lambda>v U_bm T_bm. Fin 5), c_r_sample_pset = (\<lambda>v U_bm T_bm t. 3)\<rparr>,
        c_c_score = None\<rparr>"
      and v = 0 and Cv = "[1, 2]" and U = "{1, 2}" and T = "{}"
      and w = "\<lparr>rng = (\<lambda>i. 1), trace = []\<rparr>" and x = 5
      and ?w1.0 = "\<lparr>rng = (\<lambda>i. 1), trace = [CR_sum 0 3 None]\<rparr>"] inr
    by (simp add: restricted_weight_eq bm_def Let_def fam)
qed

subsection \<open>Score: sampling a DAG\<close>

lemma find_block_first:
  "i < length R \<Longrightarrow> v \<in> R ! i \<Longrightarrow> (\<forall>j<i. v \<notin> R ! j) \<Longrightarrow> find_block v R k = Some (k + i)"
proof (induction R arbitrary: i k)
  case Nil
  then show ?case by simp
next
  case (Cons B Bs)
  show ?case
  proof (cases i)
    case 0
    with Cons.prems show ?thesis by simp
  next
    case (Suc i')
    have "v \<notin> B" using Cons.prems(3) Suc by auto
    moreover have "find_block v Bs (Suc k) = Some (Suc k + i')"
      using Cons.prems Suc by (intro Cons.IH) auto
    ultimately show ?thesis using Suc by simp
  qed
qed

lemma find_block_partition:
  assumes "ordered_partition n R" "i < length R" "v \<in> R ! i"
  shows "find_block v R 0 = Some i"
proof -
  have "\<forall>j<i. v \<notin> R ! j"
  proof (intro allI impI)
    fix j assume "j < i"
    then have "R ! j \<inter> R ! i = {}"
      using assms(1,2) by (simp add: ordered_partition_def)
    then show "v \<notin> R ! j" using assms(3) by auto
  qed
  then show ?thesis using find_block_first[OF assms(2,3), of 0] by simp
qed

lemma sample_DAG_node_char:
  assumes "ordered_partition n R" "i < length R" "v \<in> R ! i"
  shows "sample_DAG_node s R v w = (Inr (family, family_score), w1) \<longleftrightarrow>
           (if i = 0 then family = (v, {}) \<and> Score_sum s v {} {} w = (Inr family_score, w1)
            else Score_sample_pset s v (\<Union> (set (take i R))) (R ! (i - 1)) w
                   = (Inr (family, family_score), w1))"
  using find_block_partition[OF assms]
  by (auto simp add: sample_DAG_node_def split: prod.splits sum.splits)

lemma sample_DAG_loop_char:
  "sample_DAG_loop s R vs DAG sc w = (Inr (DAG', sc'), w') \<longleftrightarrow>
     (\<exists>outs ws. length outs = length vs \<and> length ws = Suc (length vs)
        \<and> ws ! 0 = w \<and> ws ! length vs = w'
        \<and> (\<forall>k<length vs. sample_DAG_node s R (vs ! k) (ws ! k) = (Inr (outs ! k), ws ! Suc k))
        \<and> DAG' = DAG @ map fst outs \<and> sc' = foldl fl_add sc (map snd outs))"
proof (induction vs arbitrary: DAG sc w)
  case Nil
  show ?case
  proof
    assume "sample_DAG_loop s R [] DAG sc w = (Inr (DAG', sc'), w')"
    then have "DAG' = DAG" "sc' = sc" "w' = w" by simp_all
    then show "\<exists>outs ws. length outs = length [] \<and> length ws = Suc (length [])
        \<and> ws ! 0 = w \<and> ws ! length [] = w'
        \<and> (\<forall>k<length []. sample_DAG_node s R ([] ! k) (ws ! k) = (Inr (outs ! k), ws ! Suc k))
        \<and> DAG' = DAG @ map fst outs \<and> sc' = foldl fl_add sc (map snd outs)"
      by (intro exI[of _ "[]"] exI[of _ "[w]"]) simp
  next
    assume "\<exists>outs ws. length outs = length [] \<and> length ws = Suc (length [])
        \<and> ws ! 0 = w \<and> ws ! length [] = w'
        \<and> (\<forall>k<length []. sample_DAG_node s R ([] ! k) (ws ! k) = (Inr (outs ! k), ws ! Suc k))
        \<and> DAG' = DAG @ map fst outs \<and> sc' = foldl fl_add sc (map snd outs)"
    then show "sample_DAG_loop s R [] DAG sc w = (Inr (DAG', sc'), w')" by auto
  qed
next
  case (Cons v vs)
  show ?case
  proof
    assume run: "sample_DAG_loop s R (v # vs) DAG sc w = (Inr (DAG', sc'), w')"
    then obtain fam fsc w1 where
      node: "sample_DAG_node s R v w = (Inr (fam, fsc), w1)"
      and rest: "sample_DAG_loop s R vs (DAG @ [fam]) (fl_add sc fsc) w1 = (Inr (DAG', sc'), w')"
      by (auto split: prod.splits sum.splits)
    from rest obtain outs ws where
      o: "length outs = length vs" "length ws = Suc (length vs)"
        "ws ! 0 = w1" "ws ! length vs = w'"
        "\<forall>k<length vs. sample_DAG_node s R (vs ! k) (ws ! k) = (Inr (outs ! k), ws ! Suc k)"
        "DAG' = (DAG @ [fam]) @ map fst outs"
        "sc' = foldl fl_add (fl_add sc fsc) (map snd outs)"
      unfolding Cons.IH by blast
    have "\<forall>k<length (v # vs). sample_DAG_node s R ((v # vs) ! k) ((w # ws) ! k)
            = (Inr (((fam, fsc) # outs) ! k), (w # ws) ! Suc k)"
    proof (intro allI impI)
      fix k assume "k < length (v # vs)"
      then show "sample_DAG_node s R ((v # vs) ! k) ((w # ws) ! k)
            = (Inr (((fam, fsc) # outs) ! k), (w # ws) ! Suc k)"
        using node o(3,5) by (cases k) simp_all
    qed
    then show "\<exists>outs ws. length outs = length (v # vs) \<and> length ws = Suc (length (v # vs))
        \<and> ws ! 0 = w \<and> ws ! length (v # vs) = w'
        \<and> (\<forall>k<length (v # vs). sample_DAG_node s R ((v # vs) ! k) (ws ! k)
              = (Inr (outs ! k), ws ! Suc k))
        \<and> DAG' = DAG @ map fst outs \<and> sc' = foldl fl_add sc (map snd outs)"
      using o by (intro exI[of _ "(fam, fsc) # outs"] exI[of _ "w # ws"]) simp
  next
    assume "\<exists>outs ws. length outs = length (v # vs) \<and> length ws = Suc (length (v # vs))
        \<and> ws ! 0 = w \<and> ws ! length (v # vs) = w'
        \<and> (\<forall>k<length (v # vs). sample_DAG_node s R ((v # vs) ! k) (ws ! k)
              = (Inr (outs ! k), ws ! Suc k))
        \<and> DAG' = DAG @ map fst outs \<and> sc' = foldl fl_add sc (map snd outs)"
    then obtain outs ws where
      o: "length outs = Suc (length vs)" "length ws = Suc (Suc (length vs))"
        "ws ! 0 = w" "ws ! Suc (length vs) = w'"
        "\<forall>k<Suc (length vs). sample_DAG_node s R ((v # vs) ! k) (ws ! k)
              = (Inr (outs ! k), ws ! Suc k)"
        "DAG' = DAG @ map fst outs" "sc' = foldl fl_add sc (map snd outs)"
      by auto
    obtain out outs' where outs: "outs = out # outs'" using o(1) by (cases outs) auto
    obtain w0 ws' where ws: "ws = w0 # ws'" using o(2) by (cases ws) auto
    have w0: "w0 = w" using o(3) ws by simp
    have node: "sample_DAG_node s R v w = (Inr out, ws' ! 0)"
      using o(5) outs ws w0 by auto
    have "\<exists>outs ws. length outs = length vs \<and> length ws = Suc (length vs)
        \<and> ws ! 0 = ws' ! 0 \<and> ws ! length vs = w'
        \<and> (\<forall>k<length vs. sample_DAG_node s R (vs ! k) (ws ! k) = (Inr (outs ! k), ws ! Suc k))
        \<and> DAG' = (DAG @ [fst out]) @ map fst outs
        \<and> sc' = foldl fl_add (fl_add sc (snd out)) (map snd outs)"
    proof (intro exI[of _ outs'] exI[of _ ws'] conjI)
      show "\<forall>k<length vs. sample_DAG_node s R (vs ! k) (ws' ! k) = (Inr (outs' ! k), ws' ! Suc k)"
      proof (intro allI impI)
        fix k assume "k < length vs"
        then have "Suc k < Suc (length vs)" by simp
        with o(5) have "sample_DAG_node s R ((v # vs) ! Suc k) (ws ! Suc k)
              = (Inr (outs ! Suc k), ws ! Suc (Suc k))" by blast
        then show "sample_DAG_node s R (vs ! k) (ws' ! k) = (Inr (outs' ! k), ws' ! Suc k)"
          by (simp add: outs ws)
      qed
    qed (use o outs ws in simp_all)
    then have "sample_DAG_loop s R vs (DAG @ [fst out]) (fl_add sc (snd out)) (ws' ! 0)
                 = (Inr (DAG', sc'), w')"
      unfolding Cons.IH .
    then show "sample_DAG_loop s R (v # vs) DAG sc w = (Inr (DAG', sc'), w')"
      using node by (cases out) simp
  qed
qed


lemma partition_block_exists:
  assumes "ordered_partition n R" "v < n"
  shows "\<exists>i<length R. int v \<in> R ! i"
proof -
  have "int v \<in> \<Union> (set R)" using assms by (simp add: ordered_partition_def)
  then obtain B where "B \<in> set R" "int v \<in> B" by blast
  then show ?thesis by (auto simp add: in_set_conv_nth)
qed

text \<open>
  Claim C1. For an ordered partition \<open>R\<close> of the \<open>n = len(C)\<close> variables,
  \<^verbatim>\<open>sample_DAG(R)\<close> returns the DAG and its score exactly when the nodes
  \<open>0, ..., n - 1\<close> can be processed one after the other, each in the world its
  predecessor left: a node of block \<open>R\<^sub>0\<close> gets the family \<open>(v, {})\<close> with the score
  \<^verbatim>\<open>sum(v, {}, {})\<close>, a node of block \<open>R\<^sub>i\<close>, \<open>i > 0\<close>, gets the family and score of
  \<^verbatim>\<open>sample_pset(v, U, T)\<close> with \<open>U\<close> the union of \<open>R\<^sub>0, ..., R\<^sub>i\<^sub>-\<^sub>1\<close> and \<open>T = R\<^sub>i\<^sub>-\<^sub>1\<close>. The DAG
  has one family per node, and the total is the sum, accumulated from 0 in node order,
  of the scores these calls returned.
\<close>

theorem Score_sample_DAG_families:
  assumes "ordered_partition (Score_n s) R"
  shows "Score_sample_DAG s R w = (Inr (DAG, DAG_score), w') \<longleftrightarrow>
     (\<exists>scores ws. length DAG = Score_n s \<and> length scores = Score_n s
        \<and> length ws = Suc (Score_n s) \<and> ws ! 0 = w \<and> ws ! Score_n s = w'
        \<and> (\<forall>v<Score_n s. \<forall>i<length R. int v \<in> R ! i \<longrightarrow>
             (if i = 0 then
                DAG ! v = (int v, {})
                \<and> Score_sum s (int v) {} {} (ws ! v) = (Inr (scores ! v), ws ! Suc v)
              else
                Score_sample_pset s (int v) (\<Union> (set (take i R))) (R ! (i - 1)) (ws ! v)
                  = (Inr (DAG ! v, scores ! v), ws ! Suc v)))
        \<and> DAG_score = foldl fl_add (Fin 0) scores)"
proof
  let ?n = "Score_n s"
  let ?vs = "py_range (int ?n)"
  have len: "length ?vs = ?n" by (simp add: py_range_def)
  have nth: "?vs ! k = int k" if "k < ?n" for k using that by (simp add: py_range_def)
  {
    assume "Score_sample_DAG s R w = (Inr (DAG, DAG_score), w')"
    then obtain outs ws where
      o: "length outs = ?n" "length ws = Suc ?n" "ws ! 0 = w" "ws ! ?n = w'"
        "\<forall>k<?n. sample_DAG_node s R (?vs ! k) (ws ! k) = (Inr (outs ! k), ws ! Suc k)"
        "DAG = map fst outs" "DAG_score = foldl fl_add (Fin 0) (map snd outs)"
      unfolding Score_sample_DAG_def sample_DAG_loop_char len by auto
    have "\<forall>v<?n. \<forall>i<length R. int v \<in> R ! i \<longrightarrow>
             (if i = 0 then
                DAG ! v = (int v, {})
                \<and> Score_sum s (int v) {} {} (ws ! v) = (Inr (map snd outs ! v), ws ! Suc v)
              else
                Score_sample_pset s (int v) (\<Union> (set (take i R))) (R ! (i - 1)) (ws ! v)
                  = (Inr (DAG ! v, map snd outs ! v), ws ! Suc v))"
    proof (intro allI impI)
      fix v i assume v: "v < ?n" and i: "i < length R" and m: "int v \<in> R ! i"
      from o(5) v have "sample_DAG_node s R (?vs ! v) (ws ! v) = (Inr (outs ! v), ws ! Suc v)"
        by blast
      then have "sample_DAG_node s R (int v) (ws ! v)
              = (Inr (DAG ! v, map snd outs ! v), ws ! Suc v)"
        using v o(1,6) by (simp add: nth[OF v])
      then show "if i = 0 then
                DAG ! v = (int v, {})
                \<and> Score_sum s (int v) {} {} (ws ! v) = (Inr (map snd outs ! v), ws ! Suc v)
              else
                Score_sample_pset s (int v) (\<Union> (set (take i R))) (R ! (i - 1)) (ws ! v)
                  = (Inr (DAG ! v, map snd outs ! v), ws ! Suc v)"
        unfolding sample_DAG_node_char[OF assms i m] .
    qed
    then show "\<exists>scores ws. length DAG = ?n \<and> length scores = ?n
        \<and> length ws = Suc ?n \<and> ws ! 0 = w \<and> ws ! ?n = w'
        \<and> (\<forall>v<?n. \<forall>i<length R. int v \<in> R ! i \<longrightarrow>
             (if i = 0 then
                DAG ! v = (int v, {})
                \<and> Score_sum s (int v) {} {} (ws ! v) = (Inr (scores ! v), ws ! Suc v)
              else
                Score_sample_pset s (int v) (\<Union> (set (take i R))) (R ! (i - 1)) (ws ! v)
                  = (Inr (DAG ! v, scores ! v), ws ! Suc v)))
        \<and> DAG_score = foldl fl_add (Fin 0) scores"
      using o by (intro exI[of _ "map snd outs"] exI[of _ ws]) simp
  }
  {
    assume "\<exists>scores ws. length DAG = ?n \<and> length scores = ?n
        \<and> length ws = Suc ?n \<and> ws ! 0 = w \<and> ws ! ?n = w'
        \<and> (\<forall>v<?n. \<forall>i<length R. int v \<in> R ! i \<longrightarrow>
             (if i = 0 then
                DAG ! v = (int v, {})
                \<and> Score_sum s (int v) {} {} (ws ! v) = (Inr (scores ! v), ws ! Suc v)
              else
                Score_sample_pset s (int v) (\<Union> (set (take i R))) (R ! (i - 1)) (ws ! v)
                  = (Inr (DAG ! v, scores ! v), ws ! Suc v)))
        \<and> DAG_score = foldl fl_add (Fin 0) scores"
    then obtain scores ws where
      h: "length DAG = ?n" "length scores = ?n" "length ws = Suc ?n" "ws ! 0 = w" "ws ! ?n = w'"
        "\<forall>v<?n. \<forall>i<length R. int v \<in> R ! i \<longrightarrow>
             (if i = 0 then
                DAG ! v = (int v, {})
                \<and> Score_sum s (int v) {} {} (ws ! v) = (Inr (scores ! v), ws ! Suc v)
              else
                Score_sample_pset s (int v) (\<Union> (set (take i R))) (R ! (i - 1)) (ws ! v)
                  = (Inr (DAG ! v, scores ! v), ws ! Suc v))"
        "DAG_score = foldl fl_add (Fin 0) scores"
      by blast
    have nodes: "\<forall>k<?n. sample_DAG_node s R (?vs ! k) (ws ! k)
                    = (Inr (zip DAG scores ! k), ws ! Suc k)"
    proof (intro allI impI)
      fix k assume k: "k < ?n"
      obtain i where i: "i < length R" "int k \<in> R ! i"
        using partition_block_exists[OF assms k] by blast
      have "sample_DAG_node s R (int k) (ws ! k) = (Inr (DAG ! k, scores ! k), ws ! Suc k)"
        unfolding sample_DAG_node_char[OF assms i] using h(6) k i by blast
      then show "sample_DAG_node s R (?vs ! k) (ws ! k)
                    = (Inr (zip DAG scores ! k), ws ! Suc k)"
        using k h(1,2) nth[OF k] by simp
    qed
    have "\<exists>outs ws. length outs = length ?vs \<and> length ws = Suc (length ?vs)
        \<and> ws ! 0 = w \<and> ws ! length ?vs = w'
        \<and> (\<forall>k<length ?vs. sample_DAG_node s R (?vs ! k) (ws ! k) = (Inr (outs ! k), ws ! Suc k))
        \<and> DAG = [] @ map fst outs \<and> DAG_score = foldl fl_add (Fin 0) (map snd outs)"
      using h nodes unfolding len
      by (intro exI[of _ "zip DAG scores"] exI[of _ ws]) simp
    then show "Score_sample_DAG s R w = (Inr (DAG, DAG_score), w')"
      unfolding Score_sample_DAG_def sample_DAG_loop_char .
  }
qed


theorem Score_sample_DAG_families_witness:
  "ordered_partition (Score_n \<lparr>C = [(0, [1]), (1, [0])], score_array = [[Fin 1, Fin 2], [Fin 3, Fin 4]],
         c_r_score = \<lparr>c_r_sum = (\<lambda>v U_bm T_bm. Fin 5), c_r_sample_pset = (\<lambda>v U_bm T_bm t. 1)\<rparr>,
         c_c_score = None\<rparr>) [{0}, {1}]
   \<and> Score_sample_DAG \<lparr>C = [(0, [1]), (1, [0])], score_array = [[Fin 1, Fin 2], [Fin 3, Fin 4]],
         c_r_score = \<lparr>c_r_sum = (\<lambda>v U_bm T_bm. Fin 5), c_r_sample_pset = (\<lambda>v U_bm T_bm t. 1)\<rparr>,
         c_c_score = None\<rparr> [{0}, {1}] \<lparr>rng = (\<lambda>i. 1), trace = []\<rparr>
       = (Inr ([(0, {}), (1, {0})], Fin 9), \<lparr>rng = (\<lambda>i. 1),
            trace = [CR_sum 0 0 None, CR_sum 1 1 (Some 1), Exponential 1, Exponential 1,
                     CR_sample_pset 1 1 1 (Fin 4)]\<rparr>)
   \<and> (\<exists>scores ws.
         ws ! 0 = \<lparr>rng = (\<lambda>i. 1), trace = []\<rparr>
         \<and> Score_sum \<lparr>C = [(0, [1]), (1, [0])], score_array = [[Fin 1, Fin 2], [Fin 3, Fin 4]],
         c_r_score = \<lparr>c_r_sum = (\<lambda>v U_bm T_bm. Fin 5), c_r_sample_pset = (\<lambda>v U_bm T_bm t. 1)\<rparr>,
         c_c_score = None\<rparr> 0 {} {} (ws ! 0) = (Inr (scores ! 0), ws ! 1)
         \<and> Score_sample_pset \<lparr>C = [(0, [1]), (1, [0])], score_array = [[Fin 1, Fin 2], [Fin 3, Fin 4]],
         c_r_score = \<lparr>c_r_sum = (\<lambda>v U_bm T_bm. Fin 5), c_r_sample_pset = (\<lambda>v U_bm T_bm t. 1)\<rparr>,
         c_c_score = None\<rparr> 1 {0} {0} (ws ! 1) = (Inr ((1, {0}), scores ! 1), ws ! 2)
         \<and> Fin 9 = foldl fl_add (Fin 0) scores)"
proof -
  define s where "s = \<lparr>C = [(0, [1]), (1, [0])], score_array = [[Fin 1, Fin 2], [Fin 3, Fin 4]],
         c_r_score = \<lparr>c_r_sum = (\<lambda>v U_bm T_bm. Fin 5), c_r_sample_pset = (\<lambda>v U_bm T_bm t. 1)\<rparr>,
         c_c_score = None\<rparr>"
  define w where "w = \<lparr>rng = (\<lambda>i. 1), trace = []\<rparr>"
  define w' where "w' = \<lparr>rng = (\<lambda>i. 1),
            trace = [CR_sum 0 0 None, CR_sum 1 1 (Some 1), Exponential 1, Exponential 1,
                     CR_sample_pset 1 1 1 (Fin 4)]\<rparr>"
  define R where "R = [{0}, {1::int}]"
  define DAG where "DAG = [(0::int, {}), (1, {0::int})]"
  have part: "ordered_partition (Score_n s) R"
    by (auto simp add: ordered_partition_def Score_n_def less_Suc_eq s_def R_def)
  have u: "[0..<2] = [0, Suc 0]" by (simp add: numeral_2_eq_2)
  have run: "Score_sample_DAG s R w = (Inr (DAG, Fin 9), w')"
    unfolding s_def w_def w'_def R_def DAG_def
    by (simp add: Score_sample_DAG_def Score_n_def py_range_def sample_DAG_node_def
        Score_sum_def Score_sample_pset_def restricted_weight_eq bm_def bm_to_ints_def
        exponential_def c_r_score_sample_pset_def score_array_get_def fl_sub_def Let_def
        c_r_score_sum_def u bit_0)
  have n: "Score_n s = 2" by (simp add: Score_n_def s_def)
  from iffD1[OF Score_sample_DAG_families[OF part] run] obtain scores ws where
    h0: "ws ! 0 = w"
    and h: "\<forall>v<Score_n s. \<forall>i<length R. int v \<in> R ! i \<longrightarrow>
             (if i = 0 then
                DAG ! v = (int v, {})
                \<and> Score_sum s (int v) {} {} (ws ! v) = (Inr (scores ! v), ws ! Suc v)
              else
                Score_sample_pset s (int v) (\<Union> (set (take i R))) (R ! (i - 1)) (ws ! v)
                  = (Inr (DAG ! v, scores ! v), ws ! Suc v))"
    and tot: "Fin 9 = foldl fl_add (Fin 0) scores"
    by (elim exE conjE)
  have a: "Score_sum s 0 {} {} (ws ! 0) = (Inr (scores ! 0), ws ! 1)"
    using h[rule_format, of 0 0] by (simp add: n R_def)
  have b: "Score_sample_pset s 1 {0} {0} (ws ! 1) = (Inr ((1, {0}), scores ! 1), ws ! 2)"
    using h[rule_format, of 1 1] by (simp add: n R_def DAG_def numeral_2_eq_2)
  have "\<exists>scores ws.
         ws ! 0 = w
         \<and> Score_sum s 0 {} {} (ws ! 0) = (Inr (scores ! 0), ws ! 1)
         \<and> Score_sample_pset s 1 {0} {0} (ws ! 1) = (Inr ((1, {0}), scores ! 1), ws ! 2)
         \<and> Fin 9 = foldl fl_add (Fin 0) scores"
    using h0 a b tot by (intro exI[of _ scores] exI[of _ ws] conjI)
  with part run show ?thesis
    unfolding s_def w_def w'_def R_def DAG_def by (intro conjI)
qed

subsection \<open>Gadget: setting up the caches and the samplers\<close>

text \<open>
  Claim C7. With \<open>mc3 = M > 1\<close>, \<^verbatim>\<open>_init_mcmc\<close> builds an \<^verbatim>\<open>MC3\<close> over exactly \<open>M\<close>
  partition samplers, the \<open>i\<close>-th with temperature \<open>i / (M - 1)\<close>: the first is 0, the last
  is 1 and the temperatures increase strictly. Every sampler gets the candidates, the
  score aggregator just built and \<open>d\<close>. With \<open>mc3 = 1\<close> a single sampler is built, without
  a temperature argument.
\<close>

theorem Gadget_init_mcmc_temperatures:
  "(1 < params_mc3 g \<longrightarrow>
      (\<exists>chains. g_mcmc (Gadget_init_mcmc g) = Some (MC3 chains)
         \<and> length chains = nat (params_mc3 g)
         \<and> map pm_temperature chains
             = map (\<lambda>i. Some (real i / real_of_int (params_mc3 g - 1))) [0..<nat (params_mc3 g)]
         \<and> pm_temperature (hd chains) = Some 0
         \<and> pm_temperature (last chains) = Some 1
         \<and> (\<forall>i j. i < j \<and> j < nat (params_mc3 g) \<longrightarrow>
               real i / real_of_int (params_mc3 g - 1) < real j / real_of_int (params_mc3 g - 1))
         \<and> (\<forall>c \<in> set chains. pm_C c = g_C g \<and> pm_d c = params_d g
               \<and> Some (pm_score c) = g_score (Gadget_init_mcmc g))))
   \<and> (params_mc3 g = 1 \<longrightarrow>
      (\<exists>chain. g_mcmc (Gadget_init_mcmc g) = Some (Single chain)
         \<and> pm_temperature chain = None
         \<and> pm_C chain = g_C g \<and> pm_d chain = params_d g
         \<and> Some (pm_score chain) = g_score (Gadget_init_mcmc g)))"
proof (intro conjI impI)
  assume M: "1 < params_mc3 g"
  let ?M = "params_mc3 g"
  let ?score = "\<lparr>C = g_C g, score_array = g_score_array g,
                   c_r_score = g_c_r_score g, c_c_score = g_c_c_score g\<rparr>"
  let ?chains = "map (\<lambda>i. \<lparr>pm_C = g_C g, pm_score = ?score, pm_d = params_d g,
                             pm_temperature = Some (real_of_int i / real_of_int (?M - 1))\<rparr>)
                      (py_range ?M)"
  have pos: "0 < real_of_int (?M - 1)" using M by simp
  have ne: "py_range ?M \<noteq> []" using M by (simp add: py_range_def)
  have mc: "g_mcmc (Gadget_init_mcmc g) = Some (MC3 ?chains)"
    using M by (simp add: Gadget_init_mcmc_def Let_def)
  have sc: "g_score (Gadget_init_mcmc g) = Some ?score"
    by (simp add: Gadget_init_mcmc_def Let_def)
  have len: "length ?chains = nat ?M" by (simp add: py_range_def)
  have temps: "map pm_temperature ?chains
             = map (\<lambda>i. Some (real i / real_of_int (?M - 1))) [0..<nat ?M]"
    by (simp add: py_range_def comp_def)
  have hd: "pm_temperature (hd ?chains) = Some 0"
    using M by (simp add: py_range_def hd_map upt_conv_Cons)
  have "last (py_range ?M) = ?M - 1"
    using M by (simp add: py_range_def last_map nat_diff_distrib' last_upt)
  then have last: "pm_temperature (last ?chains) = Some 1"
    using ne pos by (simp add: last_map)
  have incr: "\<forall>i j. i < j \<and> j < nat ?M \<longrightarrow>
               real i / real_of_int (?M - 1) < real j / real_of_int (?M - 1)"
    using pos by (simp add: divide_strict_right_mono)
  have all: "\<forall>c \<in> set ?chains. pm_C c = g_C g \<and> pm_d c = params_d g
               \<and> Some (pm_score c) = g_score (Gadget_init_mcmc g)"
    by (auto simp add: sc)
  show "\<exists>chains. g_mcmc (Gadget_init_mcmc g) = Some (MC3 chains)
         \<and> length chains = nat ?M
         \<and> map pm_temperature chains
             = map (\<lambda>i. Some (real i / real_of_int (?M - 1))) [0..<nat ?M]
         \<and> pm_temperature (hd chains) = Some 0
         \<and> pm_temperature (last chains) = Some 1
         \<and> (\<forall>i j. i < j \<and> j < nat ?M \<longrightarrow>
               real i / real_of_int (?M - 1) < real j / real_of_int (?M - 1))
         \<and> (\<forall>c \<in> set chains. pm_C c = g_C g \<and> pm_d c = params_d g
               \<and> Some (pm_score c) = g_score (Gadget_init_mcmc g))"
    using mc len temps hd last incr all by (intro exI[of _ ?chains] conjI)
next
  assume "params_mc3 g = 1"
  then show "\<exists>chain. g_mcmc (Gadget_init_mcmc g) = Some (Single chain)
         \<and> pm_temperature chain = None
         \<and> pm_C chain = g_C g \<and> pm_d chain = params_d g
         \<and> Some (pm_score chain) = g_score (Gadget_init_mcmc g)"
    by (simp add: Gadget_init_mcmc_def Let_def)
qed


theorem Gadget_init_mcmc_temperatures_witness:
  "(\<exists>chains. g_mcmc (Gadget_init_mcmc
       \<lparr>g_data = \<lparr>data_shape = (5, 3), discrete = True\<rparr>, params_score_name = ''bdeu'',
        params_K = 2, params_d = 1, params_mc3 = 3, params_burn_in = 1, params_iterations = 2,
        params_thinning = 1, params_score_sum_eps = 1, g_logfile = True,
        g_C = [(0, [1]), (1, [0]), (2, [0])], g_score_array = [[Fin 1, Fin 2], [Fin 3, Fin 4], [Fin 5, Fin 6]],
        g_c_r_score = \<lparr>c_r_sum = (\<lambda>v U_bm T_bm. Fin 5), c_r_sample_pset = (\<lambda>v U_bm T_bm t. 1)\<rparr>,
        g_c_c_score = None, g_l_score = None, g_score = None, g_mcmc = None\<rparr>) = Some (MC3 chains)
      \<and> map pm_temperature chains = [Some 0, Some (1 / 2), Some 1])
   \<and> (\<exists>chain. g_mcmc (Gadget_init_mcmc
       \<lparr>g_data = \<lparr>data_shape = (5, 3), discrete = True\<rparr>, params_score_name = ''bdeu'',
        params_K = 2, params_d = 1, params_mc3 = 1, params_burn_in = 1, params_iterations = 2,
        params_thinning = 1, params_score_sum_eps = 1, g_logfile = True,
        g_C = [(0, [1]), (1, [0]), (2, [0])], g_score_array = [[Fin 1, Fin 2], [Fin 3, Fin 4], [Fin 5, Fin 6]],
        g_c_r_score = \<lparr>c_r_sum = (\<lambda>v U_bm T_bm. Fin 5), c_r_sample_pset = (\<lambda>v U_bm T_bm t. 1)\<rparr>,
        g_c_c_score = None, g_l_score = None, g_score = None, g_mcmc = None\<rparr>) = Some (Single chain)
      \<and> pm_temperature chain = None)"
proof -
  define g3 :: Gadget where "g3 = \<lparr>g_data = \<lparr>data_shape = (5, 3), discrete = True\<rparr>, params_score_name = ''bdeu'',
        params_K = 2, params_d = 1, params_mc3 = 3, params_burn_in = 1, params_iterations = 2,
        params_thinning = 1, params_score_sum_eps = 1, g_logfile = True,
        g_C = [(0, [1]), (1, [0]), (2, [0])], g_score_array = [[Fin 1, Fin 2], [Fin 3, Fin 4], [Fin 5, Fin 6]],
        g_c_r_score = \<lparr>c_r_sum = (\<lambda>v U_bm T_bm. Fin 5), c_r_sample_pset = (\<lambda>v U_bm T_bm t. 1)\<rparr>,
        g_c_c_score = None, g_l_score = None, g_score = None, g_mcmc = None\<rparr>"
  define g1 :: Gadget where "g1 = \<lparr>g_data = \<lparr>data_shape = (5, 3), discrete = True\<rparr>, params_score_name = ''bdeu'',
        params_K = 2, params_d = 1, params_mc3 = 1, params_burn_in = 1, params_iterations = 2,
        params_thinning = 1, params_score_sum_eps = 1, g_logfile = True,
        g_C = [(0, [1]), (1, [0]), (2, [0])], g_score_array = [[Fin 1, Fin 2], [Fin 3, Fin 4], [Fin 5, Fin 6]],
        g_c_r_score = \<lparr>c_r_sum = (\<lambda>v U_bm T_bm. Fin 5), c_r_sample_pset = (\<lambda>v U_bm T_bm t. 1)\<rparr>,
        g_c_c_score = None, g_l_score = None, g_score = None, g_mcmc = None\<rparr>"
  have u: "[0..<3] = [0, 1, 2]" by (simp add: numeral_3_eq_3 numeral_2_eq_2)
  have m3: "params_mc3 g3 = 3" by (simp add: g3_def)
  have m1: "params_mc3 g1 = 1" by (simp add: g1_def)
  have h3: "1 < params_mc3 g3" by (simp add: m3)
  from Gadget_init_mcmc_temperatures[of g3, THEN conjunct1, THEN mp, OF h3] obtain chains where
    c: "g_mcmc (Gadget_init_mcmc g3) = Some (MC3 chains)"
      "map pm_temperature chains
         = map (\<lambda>i. Some (real i / real_of_int (params_mc3 g3 - 1))) [0..<nat (params_mc3 g3)]"
    by (elim conjE exE)
  have t: "map pm_temperature chains = [Some 0, Some (1 / 2), Some 1]"
    unfolding c(2) m3 by (simp add: u)
  from Gadget_init_mcmc_temperatures[of g1, THEN conjunct2, THEN mp, OF m1] obtain chain where
    d: "g_mcmc (Gadget_init_mcmc g1) = Some (Single chain)" "pm_temperature chain = None"
    by (elim conjE exE)
  have "(\<exists>chains. g_mcmc (Gadget_init_mcmc g3) = Some (MC3 chains)
           \<and> map pm_temperature chains = [Some 0, Some (1 / 2), Some 1])
        \<and> (\<exists>chain. g_mcmc (Gadget_init_mcmc g1) = Some (Single chain)
           \<and> pm_temperature chain = None)"
    using c(1) t d by (intro conjI exI[of _ chains] exI[of _ chain])
  then show ?thesis unfolding g3_def g1_def .
qed

lemma complement_cache_slot:
  "(g_c_c_score (Gadget_precompute_candidate_complement_scoring comb BDeu BGe mk_c_c_score g) \<noteq> None
      \<longleftrightarrow> params_K g < int (Data_n (g_data g)) - 1)
   \<and> (\<exists>score. g_score (Gadget_init_mcmc
                  (Gadget_precompute_candidate_complement_scoring comb BDeu BGe mk_c_c_score g))
               = Some score
         \<and> c_c_score score
             = g_c_c_score (Gadget_precompute_candidate_complement_scoring comb BDeu BGe mk_c_c_score g))"
  by (simp add: Gadget_precompute_candidate_complement_scoring_def Gadget_init_mcmc_def Let_def)

text \<open>
  Claim C5 asks that, with \<open>K \<ge> n - 1\<close>, no complement cache is built and the
  complement-space logic is never entered at query time. The first half holds
  (\<open>complement_cache_slot\<close>). The second fails on the code: with \<open>n = 3\<close> and
  \<open>K = 2\<close> the slot of the score aggregator is \<open>None\<close>; \<^verbatim>\<open>sum(0, {1, 2}, {1})\<close> looks at the
  slot and returns the restricted weight, but \<^verbatim>\<open>sample_pset(0, {1, 2}, {1})\<close> with a first
  draw of 0 fails the test \<open>- E < 0\<close>, enters the branch that samples from the complement
  parent sets and raises AttributeError on the absent cache.
\<close>

theorem complement_branch_without_cache:
  "int (Data_n (g_data
      \<lparr>g_data = \<lparr>data_shape = (5, 3), discrete = True\<rparr>, params_score_name = ''bdeu'',
        params_K = 2, params_d = 1, params_mc3 = 1, params_burn_in = 1, params_iterations = 2,
        params_thinning = 1, params_score_sum_eps = 1, g_logfile = True,
        g_C = [(0, [1, 2]), (1, [0, 2]), (2, [0, 1])],
        g_score_array = [[Fin 1, Fin 2, Fin 3, Fin 4], [Fin 1, Fin 2, Fin 3, Fin 4],
                         [Fin 1, Fin 2, Fin 3, Fin 4]],
        g_c_r_score = \<lparr>c_r_sum = (\<lambda>v U_bm T_bm. Fin 5), c_r_sample_pset = (\<lambda>v U_bm T_bm t. 1)\<rparr>,
        g_c_c_score = None, g_l_score = None, g_score = None, g_mcmc = None\<rparr>)) - 1
     \<le> params_K
      \<lparr>g_data = \<lparr>data_shape = (5, 3), discrete = True\<rparr>, params_score_name = ''bdeu'',
        params_K = 2, params_d = 1, params_mc3 = 1, params_burn_in = 1, params_iterations = 2,
        params_thinning = 1, params_score_sum_eps = 1, g_logfile = True,
        g_C = [(0, [1, 2]), (1, [0, 2]), (2, [0, 1])],
        g_score_array = [[Fin 1, Fin 2, Fin 3, Fin 4], [Fin 1, Fin 2, Fin 3, Fin 4],
                         [Fin 1, Fin 2, Fin 3, Fin 4]],
        g_c_r_score = \<lparr>c_r_sum = (\<lambda>v U_bm T_bm. Fin 5), c_r_sample_pset = (\<lambda>v U_bm T_bm t. 1)\<rparr>,
        g_c_c_score = None, g_l_score = None, g_score = None, g_mcmc = None\<rparr>
   \<and> g_c_c_score (Gadget_precompute_candidate_complement_scoring (\<lambda>n k. 1) (\<lambda>d m v P. Fin 1) (\<lambda>d m v P. Fin 2)
        (\<lambda>ls Cs d eps. \<lparr>c_c_sum = (\<lambda>v U T W. Fin 7), c_c_sample_pset = (\<lambda>v U T t. ({}, Fin 0))\<rparr>)
      \<lparr>g_data = \<lparr>data_shape = (5, 3), discrete = True\<rparr>, params_score_name = ''bdeu'',
        params_K = 2, params_d = 1, params_mc3 = 1, params_burn_in = 1, params_iterations = 2,
        params_thinning = 1, params_score_sum_eps = 1, g_logfile = True,
        g_C = [(0, [1, 2]), (1, [0, 2]), (2, [0, 1])],
        g_score_array = [[Fin 1, Fin 2, Fin 3, Fin 4], [Fin 1, Fin 2, Fin 3, Fin 4],
                         [Fin 1, Fin 2, Fin 3, Fin 4]],
        g_c_r_score = \<lparr>c_r_sum = (\<lambda>v U_bm T_bm. Fin 5), c_r_sample_pset = (\<lambda>v U_bm T_bm t. 1)\<rparr>,
        g_c_c_score = None, g_l_score = None, g_score = None, g_mcmc = None\<rparr>) = None
   \<and> (\<exists>score. g_score (Gadget_init_mcmc (Gadget_precompute_candidate_complement_scoring (\<lambda>n k. 1) (\<lambda>d m v P. Fin 1) (\<lambda>d m v P. Fin 2)
        (\<lambda>ls Cs d eps. \<lparr>c_c_sum = (\<lambda>v U T W. Fin 7), c_c_sample_pset = (\<lambda>v U T t. ({}, Fin 0))\<rparr>)
      \<lparr>g_data = \<lparr>data_shape = (5, 3), discrete = True\<rparr>, params_score_name = ''bdeu'',
        params_K = 2, params_d = 1, params_mc3 = 1, params_burn_in = 1, params_iterations = 2,
        params_thinning = 1, params_score_sum_eps = 1, g_logfile = True,
        g_C = [(0, [1, 2]), (1, [0, 2]), (2, [0, 1])],
        g_score_array = [[Fin 1, Fin 2, Fin 3, Fin 4], [Fin 1, Fin 2, Fin 3, Fin 4],
                         [Fin 1, Fin 2, Fin 3, Fin 4]],
        g_c_r_score = \<lparr>c_r_sum = (\<lambda>v U_bm T_bm. Fin 5), c_r_sample_pset = (\<lambda>v U_bm T_bm t. 1)\<rparr>,
        g_c_c_score = None, g_l_score = None, g_score = None, g_mcmc = None\<rparr>)) = Some score
        \<and> c_c_score score = None
        \<and> Score_sum score 0 {1, 2} {1} \<lparr>rng = (\<lambda>i. 0), trace = []\<rparr>
            = (Inr (Fin 5), \<lparr>rng = (\<lambda>i. 0), trace = [CR_sum 0 3 (Some 1)]\<rparr>)
        \<and> Score_sample_pset score 0 {1, 2} {1} \<lparr>rng = (\<lambda>i. 0), trace = []\<rparr>
            = (Inl AttributeError,
               \<lparr>rng = (\<lambda>i. 0), trace = [CR_sum 0 3 (Some 1), Exponential 0]\<rparr>))"
proof -
  have b: "bm {1, 2} [1, 2] = 3" "bm {1} [1, 2] = Suc 0"
    by (simp_all add: bm_def)
  show ?thesis
    by (simp add: Gadget_precompute_candidate_complement_scoring_def Gadget_init_mcmc_def
        Data_n_def Score_sum_def Score_sample_pset_def restricted_weight_eq exponential_def
        fl_sub_def Let_def b)
qed

subsection \<open>Gadget: burn-in, sampling and thinning\<close>

lemma print_stats_ok:
  "\<not> g_logfile g \<or> params_burn_in g + params_iterations g \<noteq> 0 \<Longrightarrow>
     g_logfile g \<Longrightarrow> print_stats g i header = Inr ()"
  by (auto simp add: print_stats_def)

lemma print_stats_fails:
  "\<not> (\<not> g_logfile g \<or> params_burn_in g + params_iterations g \<noteq> 0) \<Longrightarrow>
     print_stats g i header = Inl ZeroDivisionError"
  by (simp add: print_stats_def)

lemma burn_in_loop_ok:
  assumes "\<not> g_logfile g \<or> params_burn_in g + params_iterations g \<noteq> 0"
  shows "\<exists>f. burn_in_loop g sample due js first st
               = (Inr f, (sampler_step sample ^^ length js) st)"
proof (induction js arbitrary: first st)
  case Nil
  show ?case by simp
next
  case (Cons i js)
  obtain R st1 where s: "mcmc_sample sample st = (R, st1)" by (cases "mcmc_sample sample st")
  have st1: "st1 = sampler_step sample st" using s by (simp add: sampler_step_def)
  have pw: "(sampler_step sample ^^ length (i # js)) st = (sampler_step sample ^^ length js) st1"
    unfolding st1 by (simp add: funpow_swap1)
  show ?case
  proof (cases "g_logfile g \<and> due i")
    case True
    then have "print_stats g i first = Inr ()" using print_stats_ok[OF assms] by simp
    then show ?thesis unfolding pw using True s Cons.IH[of False st1] by simp
  next
    case False
    then show ?thesis unfolding pw using s Cons.IH[of first st1] by auto
  qed
qed

lemma burn_in_loop_keeps_first:
  assumes "\<not> (\<not> g_logfile g \<or> params_burn_in g + params_iterations g \<noteq> 0)"
  shows "burn_in_loop g sample due js first st = (Inr f, st') \<Longrightarrow> f = first"
proof (induction js arbitrary: first st)
  case Nil
  then show ?case by simp
next
  case (Cons i js)
  obtain R st1 where s: "mcmc_sample sample st = (R, st1)" by (cases "mcmc_sample sample st")
  show ?case
  proof (cases "g_logfile g \<and> due i")
    case True
    then show ?thesis using Cons.prems s print_stats_fails[OF assms] by simp
  next
    case False
    then show ?thesis using Cons.prems s Cons.IH[of first st1] by auto
  qed
qed

lemma sampling_loop_keeps_first:
  assumes "\<not> (\<not> g_logfile g \<or> params_burn_in g + params_iterations g \<noteq> 0)"
  shows "sampling_loop g sample due js first dags scs st = (Inr (f, dags', scs'), st')
           \<Longrightarrow> f = first"
proof (induction js arbitrary: first dags scs st)
  case Nil
  then show ?case by simp
next
  case (Cons i js)
  show ?case
  proof (cases "g_logfile g \<and> due (i + params_burn_in g)")
    case True
    then show ?thesis using Cons.prems print_stats_fails[OF assms] by simp
  next
    case False
    then show ?thesis using Cons.prems Cons.IH
      by (auto split: if_splits option.splits prod.splits sum.splits)
  qed
qed


lemma sampling_loop_Cons:
  assumes "\<not> g_logfile g \<or> params_burn_in g + params_iterations g \<noteq> 0"
    and "params_thinning g \<noteq> 0" and "g_score g = Some score"
    and "mcmc_sample sample st = (R, (m1, w1))"
  shows "\<exists>first1. sampling_loop g sample due (i # js) first dags scs st =
     (if i mod params_thinning g = 0 then
        (case Score_sample_DAG score R w1 of
           (Inl e, w2) \<Rightarrow> (Inl e, (m1, w2))
         | (Inr (dag, score1), w2) \<Rightarrow>
             sampling_loop g sample due js first1 (dags @ [dag]) (scs @ [score1]) (m1, w2))
      else sampling_loop g sample due js first1 dags scs (m1, w1))"
proof (cases "g_logfile g \<and> due (i + params_burn_in g)")
  case True
  then have "print_stats g (i + params_burn_in g) first = Inr ()"
    using print_stats_ok[OF assms(1)] by simp
  then show ?thesis using True assms(2,3,4) by (intro exI[of _ False]) simp
next
  case False
  then show ?thesis using assms(2,3,4) by (intro exI[of _ first]) auto
qed

lemma recorded_pass_thinned:
  "mcmc_sample sample st = (R, (m1, w1)) \<Longrightarrow> i mod params_thinning g = 0 \<Longrightarrow>
     recorded_pass g score sample i st r y \<longleftrightarrow>
       (\<exists>dag sc1 w2. Score_sample_DAG score R w1 = (Inr (dag, sc1), w2)
          \<and> r = [(dag, sc1)] \<and> y = (m1, w2))"
  by (auto simp add: recorded_pass_def split: prod.splits sum.splits)

lemma recorded_pass_skipped:
  "mcmc_sample sample st = (R, (m1, w1)) \<Longrightarrow> i mod params_thinning g \<noteq> 0 \<Longrightarrow>
     recorded_pass g score sample i st r y \<longleftrightarrow> r = [] \<and> y = (m1, w1)"
  by (simp add: recorded_pass_def)

lemma sampling_loop_char:
  assumes ok: "\<not> g_logfile g \<or> params_burn_in g + params_iterations g \<noteq> 0"
    and t: "params_thinning g \<noteq> 0" and sc: "g_score g = Some score"
  shows "(\<exists>f. sampling_loop g sample due js first dags scs st = (Inr (f, dags', scs'), st')) \<longleftrightarrow>
     (\<exists>recs sts. length recs = length js \<and> length sts = Suc (length js)
        \<and> sts ! 0 = st \<and> sts ! length js = st'
        \<and> (\<forall>k<length js. recorded_pass g score sample (js ! k) (sts ! k) (recs ! k) (sts ! Suc k))
        \<and> dags' = dags @ map fst (concat recs) \<and> scs' = scs @ map snd (concat recs))"
proof (induction js arbitrary: first dags scs st)
  case Nil
  show ?case
  proof
    assume "\<exists>f. sampling_loop g sample due [] first dags scs st = (Inr (f, dags', scs'), st')"
    then have "dags' = dags" "scs' = scs" "st' = st" by auto
    then show "\<exists>recs sts. length recs = length [] \<and> length sts = Suc (length [])
        \<and> sts ! 0 = st \<and> sts ! length [] = st'
        \<and> (\<forall>k<length []. recorded_pass g score sample ([] ! k) (sts ! k) (recs ! k) (sts ! Suc k))
        \<and> dags' = dags @ map fst (concat recs) \<and> scs' = scs @ map snd (concat recs)"
      by (intro exI[of _ "[]"] exI[of _ "[st]"]) simp
  next
    assume "\<exists>recs sts. length recs = length [] \<and> length sts = Suc (length [])
        \<and> sts ! 0 = st \<and> sts ! length [] = st'
        \<and> (\<forall>k<length []. recorded_pass g score sample ([] ! k) (sts ! k) (recs ! k) (sts ! Suc k))
        \<and> dags' = dags @ map fst (concat recs) \<and> scs' = scs @ map snd (concat recs)"
    then show "\<exists>f. sampling_loop g sample due [] first dags scs st = (Inr (f, dags', scs'), st')"
      by auto
  qed
next
  case (Cons i js)
  obtain R m1 w1 where ms: "mcmc_sample sample st = (R, (m1, w1))"
    by (metis prod.exhaust)
  obtain first1 where step: "sampling_loop g sample due (i # js) first dags scs st =
     (if i mod params_thinning g = 0 then
        (case Score_sample_DAG score R w1 of
           (Inl e, w2) \<Rightarrow> (Inl e, (m1, w2))
         | (Inr (dag, score1), w2) \<Rightarrow>
             sampling_loop g sample due js first1 (dags @ [dag]) (scs @ [score1]) (m1, w2))
      else sampling_loop g sample due js first1 dags scs (m1, w1))"
    using sampling_loop_Cons[OF ok t sc ms] by blast
  show ?case
  proof
    assume "\<exists>f. sampling_loop g sample due (i # js) first dags scs st
                  = (Inr (f, dags', scs'), st')"
    then obtain f where run:
      "sampling_loop g sample due (i # js) first dags scs st = (Inr (f, dags', scs'), st')"
      by blast
    have "\<exists>r y da sa. recorded_pass g score sample i st r y
            \<and> sampling_loop g sample due js first1 da sa y = (Inr (f, dags', scs'), st')
            \<and> da = dags @ map fst r \<and> sa = scs @ map snd r"
    proof (cases "i mod params_thinning g = 0")
      case True
      with run step obtain dag sc1 w2 where
        d: "Score_sample_DAG score R w1 = (Inr (dag, sc1), w2)"
        and rest: "sampling_loop g sample due js first1 (dags @ [dag]) (scs @ [sc1]) (m1, w2)
                     = (Inr (f, dags', scs'), st')"
        by (auto split: prod.splits sum.splits)
      have "recorded_pass g score sample i st [(dag, sc1)] (m1, w2)"
        unfolding recorded_pass_thinned[OF ms True] using d by simp
      then show ?thesis
        using rest
        by (intro exI[of _ "[(dag, sc1)]"] exI[of _ "(m1, w2)"] exI[of _ "dags @ [dag]"]
            exI[of _ "scs @ [sc1]"]) simp
    next
      case False
      with run step have
        rest: "sampling_loop g sample due js first1 dags scs (m1, w1)
                     = (Inr (f, dags', scs'), st')"
        by simp
      have "recorded_pass g score sample i st [] (m1, w1)"
        unfolding recorded_pass_skipped[OF ms False] by simp
      then show ?thesis
        using rest
        by (intro exI[of _ "[]"] exI[of _ "(m1, w1)"] exI[of _ dags] exI[of _ scs]) simp
    qed
    then obtain r y da sa where
      p: "recorded_pass g score sample i st r y"
      and rest: "sampling_loop g sample due js first1 da sa y = (Inr (f, dags', scs'), st')"
      and da: "da = dags @ map fst r" and sa: "sa = scs @ map snd r"
      by blast
    from rest have "\<exists>f. sampling_loop g sample due js first1 da sa y
                          = (Inr (f, dags', scs'), st')" by blast
    then obtain recs sts where
      o: "length recs = length js" "length sts = Suc (length js)"
        "sts ! 0 = y" "sts ! length js = st'"
        "\<forall>k<length js. recorded_pass g score sample (js ! k) (sts ! k) (recs ! k) (sts ! Suc k)"
        "dags' = da @ map fst (concat recs)" "scs' = sa @ map snd (concat recs)"
      unfolding Cons.IH by blast
    have all: "\<forall>k<length (i # js).
                 recorded_pass g score sample ((i # js) ! k) ((st # sts) ! k) ((r # recs) ! k)
                   ((st # sts) ! Suc k)"
    proof (intro allI impI)
      fix k assume "k < length (i # js)"
      then show "recorded_pass g score sample ((i # js) ! k) ((st # sts) ! k) ((r # recs) ! k)
                   ((st # sts) ! Suc k)"
        using p o(3,5) by (cases k) simp_all
    qed
    show "\<exists>recs sts. length recs = length (i # js) \<and> length sts = Suc (length (i # js))
        \<and> sts ! 0 = st \<and> sts ! length (i # js) = st'
        \<and> (\<forall>k<length (i # js).
              recorded_pass g score sample ((i # js) ! k) (sts ! k) (recs ! k) (sts ! Suc k))
        \<and> dags' = dags @ map fst (concat recs) \<and> scs' = scs @ map snd (concat recs)"
      using o all da sa by (intro exI[of _ "r # recs"] exI[of _ "st # sts"]) simp
  next
    assume "\<exists>recs sts. length recs = length (i # js) \<and> length sts = Suc (length (i # js))
        \<and> sts ! 0 = st \<and> sts ! length (i # js) = st'
        \<and> (\<forall>k<length (i # js).
              recorded_pass g score sample ((i # js) ! k) (sts ! k) (recs ! k) (sts ! Suc k))
        \<and> dags' = dags @ map fst (concat recs) \<and> scs' = scs @ map snd (concat recs)"
    then obtain recs sts where
      o: "length recs = Suc (length js)" "length sts = Suc (Suc (length js))"
        "sts ! 0 = st" "sts ! Suc (length js) = st'"
        "\<forall>k<Suc (length js).
           recorded_pass g score sample ((i # js) ! k) (sts ! k) (recs ! k) (sts ! Suc k)"
        "dags' = dags @ map fst (concat recs)" "scs' = scs @ map snd (concat recs)"
      by auto
    obtain r recs' where recs: "recs = r # recs'" using o(1) by (cases recs) auto
    obtain s0 sts' where sts: "sts = s0 # sts'" using o(2) by (cases sts) auto
    have s0: "s0 = st" using o(3) sts by simp
    have "0 < Suc (length js)" by simp
    with o(5) have "recorded_pass g score sample ((i # js) ! 0) (sts ! 0) (recs ! 0) (sts ! Suc 0)"
      by blast
    then have p: "recorded_pass g score sample i st r (sts' ! 0)" using recs sts s0 by simp
    have ih: "\<exists>recs sts. length recs = length js \<and> length sts = Suc (length js)
        \<and> sts ! 0 = sts' ! 0 \<and> sts ! length js = st'
        \<and> (\<forall>k<length js. recorded_pass g score sample (js ! k) (sts ! k) (recs ! k) (sts ! Suc k))
        \<and> dags' = (dags @ map fst r) @ map fst (concat recs)
        \<and> scs' = (scs @ map snd r) @ map snd (concat recs)"
    proof (intro exI[of _ recs'] exI[of _ sts'] conjI)
      show "\<forall>k<length js.
              recorded_pass g score sample (js ! k) (sts' ! k) (recs' ! k) (sts' ! Suc k)"
      proof (intro allI impI)
        fix k assume "k < length js"
        then have "Suc k < Suc (length js)" by simp
        with o(5) have "recorded_pass g score sample ((i # js) ! Suc k) (sts ! Suc k)
                          (recs ! Suc k) (sts ! Suc (Suc k))"
          by blast
        then show "recorded_pass g score sample (js ! k) (sts' ! k) (recs' ! k) (sts' ! Suc k)"
          by (simp add: recs sts)
      qed
    qed (use o recs sts in simp_all)
    have rest: "\<exists>f. sampling_loop g sample due js fx (dags @ map fst r) (scs @ map snd r)
                   (sts' ! 0) = (Inr (f, dags', scs'), st')" for fx
      unfolding Cons.IH using ih .
    show "\<exists>f. sampling_loop g sample due (i # js) first dags scs st
                 = (Inr (f, dags', scs'), st')"
    proof (cases "i mod params_thinning g = 0")
      case True
      with p obtain dag sc1 w2 where
        d: "Score_sample_DAG score R w1 = (Inr (dag, sc1), w2)" "r = [(dag, sc1)]"
          "sts' ! 0 = (m1, w2)"
        unfolding recorded_pass_thinned[OF ms True] by blast
      then show ?thesis using rest[of first1] step True by simp
    next
      case False
      with p have "r = []" "sts' ! 0 = (m1, w1)"
        unfolding recorded_pass_skipped[OF ms False] by simp_all
      then show ?thesis using rest[of first1] step False by simp
    qed
  qed
qed


lemma Gadget_run_mcmc_char:
  assumes t: "params_thinning g \<noteq> 0" and sc: "g_score g = Some score"
  shows "Gadget_run_mcmc g sample due st = (Inr (dags, dag_scores), st') \<longleftrightarrow>
            (\<not> g_logfile g \<or> params_burn_in g + params_iterations g \<noteq> 0)
            \<and> (\<exists>recs sts. length recs = nat (params_iterations g)
                 \<and> length sts = Suc (nat (params_iterations g))
                 \<and> sts ! 0 = (sampler_step sample ^^ nat (params_burn_in g)) st
                 \<and> sts ! nat (params_iterations g) = st'
                 \<and> (\<forall>i<nat (params_iterations g).
                       recorded_pass g score sample (int i) (sts ! i) (recs ! i) (sts ! Suc i))
                 \<and> dags = map fst (concat recs) \<and> dag_scores = map snd (concat recs))"
proof (cases "\<not> g_logfile g \<or> params_burn_in g + params_iterations g \<noteq> 0")
  case False
  then have lf: "g_logfile g" by simp
  have "Gadget_run_mcmc g sample due st \<noteq> (Inr (dags, dag_scores), st')"
  proof
    assume run: "Gadget_run_mcmc g sample due st = (Inr (dags, dag_scores), st')"
    then obtain f st1 where
      b: "burn_in_loop g sample due (py_range (params_burn_in g)) True st = (Inr f, st1)"
      by (auto simp add: Gadget_run_mcmc_def split: prod.splits sum.splits)
    have f: "f = True" using burn_in_loop_keeps_first[OF False b] .
    from run b obtain f2 d s2 st2 where
      l: "sampling_loop g sample due (py_range (params_iterations g)) f [] [] st1
            = (Inr (f2, d, s2), st2)"
      by (auto simp add: Gadget_run_mcmc_def split: prod.splits sum.splits)
    have f2: "f2 = True" using sampling_loop_keeps_first[OF False l] f by simp
    show False
      using run b l f2 lf print_stats_fails[OF False]
      by (simp add: Gadget_run_mcmc_def)
  qed
  then show ?thesis using False by simp
next
  case True
  let ?b = "nat (params_burn_in g)" and ?n = "nat (params_iterations g)"
  let ?js = "py_range (params_iterations g)"
  let ?stb = "(sampler_step sample ^^ ?b) st"
  have lenb: "length (py_range (params_burn_in g)) = ?b" by (simp add: py_range_def)
  have len: "length ?js = ?n" by (simp add: py_range_def)
  have nth: "?js ! k = int k" if "k < ?n" for k using that by (simp add: py_range_def)
  obtain f where
    b: "burn_in_loop g sample due (py_range (params_burn_in g)) True st = (Inr f, ?stb)"
    using burn_in_loop_ok[OF True, of sample due "py_range (params_burn_in g)" True st]
    unfolding lenb by blast
  have fin: "(if g_logfile g \<and> f2 then
                (case print_stats g (params_burn_in g + params_iterations g) f2 of
                   Inl e \<Rightarrow> (Inl e, st2)
                 | Inr u \<Rightarrow> (Inr (d, s2), st2))
              else (Inr (d, s2), st2)) = (Inr (d, s2), st2)" for f2 d s2 and st2 :: "'a \<times> world"
    using print_stats_ok[OF True] by simp
  have "Gadget_run_mcmc g sample due st = (Inr (dags, dag_scores), st') \<longleftrightarrow>
          (\<exists>f2. sampling_loop g sample due ?js f [] [] ?stb = (Inr (f2, dags, dag_scores), st'))"
    unfolding Gadget_run_mcmc_def b
    by (auto simp add: fin split: prod.splits sum.splits)
  also have "\<dots> \<longleftrightarrow>
     (\<exists>recs sts. length recs = length ?js \<and> length sts = Suc (length ?js)
        \<and> sts ! 0 = ?stb \<and> sts ! length ?js = st'
        \<and> (\<forall>k<length ?js. recorded_pass g score sample (?js ! k) (sts ! k) (recs ! k) (sts ! Suc k))
        \<and> dags = [] @ map fst (concat recs) \<and> dag_scores = [] @ map snd (concat recs))"
    by (rule sampling_loop_char[OF True t sc])
  also have "\<dots> \<longleftrightarrow>
     (\<exists>recs sts. length recs = ?n \<and> length sts = Suc ?n
        \<and> sts ! 0 = ?stb \<and> sts ! ?n = st'
        \<and> (\<forall>i<?n. recorded_pass g score sample (int i) (sts ! i) (recs ! i) (sts ! Suc i))
        \<and> dags = map fst (concat recs) \<and> dag_scores = map snd (concat recs))"
    unfolding len by (simp add: nth cong: conj_cong)
  finally show ?thesis using True by simp
qed


lemma restricted_weight_no_sampler_step:
  "restricted_weight s v T U_bm T_bm w = (x, w1) \<Longrightarrow>
     filter is_sampler_step (trace w1) = filter is_sampler_step (trace w)"
  by (auto simp add: restricted_weight_eq split: if_splits)

lemma Score_sum_no_sampler_step:
  "filter is_sampler_step (trace (snd (Score_sum s v U T w))) = filter is_sampler_step (trace w)"
  by (simp add: Score_sum_def restricted_weight_eq c_c_score_sum_def Let_def
      split: option.splits)

lemma Score_sample_pset_no_sampler_step:
  "filter is_sampler_step (trace (snd (Score_sample_pset s v U T w)))
     = filter is_sampler_step (trace w)"
proof (cases "map_of (C s) v")
  case None
  then show ?thesis by (simp add: Score_sample_pset_def)
next
  case (Some Cv)
  obtain W w1 where
    rw: "restricted_weight s v T (bm (U \<inter> set Cv) Cv) (bm (T \<inter> set Cv) Cv) w = (W, w1)"
    by (cases "restricted_weight s v T (bm (U \<inter> set Cv) Cv) (bm (T \<inter> set Cv) Cv) w")
  have "filter is_sampler_step (trace (snd (Score_sample_pset s v U T w)))
          = filter is_sampler_step (trace w1)"
    using Score_sample_pset_race_aux[OF Some rw] by (simp add: Let_def)
  then show ?thesis using restricted_weight_no_sampler_step[OF rw] by simp
qed

lemma sample_DAG_node_no_sampler_step:
  "filter is_sampler_step (trace (snd (sample_DAG_node s R v w)))
     = filter is_sampler_step (trace w)"
  using Score_sum_no_sampler_step[of s v "{}" "{}" w]
  by (auto simp add: sample_DAG_node_def Score_sample_pset_no_sampler_step
      split: option.splits prod.splits sum.splits)

lemma sample_DAG_loop_no_sampler_step:
  "filter is_sampler_step (trace (snd (sample_DAG_loop s R vs DAG sc w)))
     = filter is_sampler_step (trace w)"
proof (induction vs arbitrary: DAG sc w)
  case Nil
  then show ?case by simp
next
  case (Cons v vs)
  show ?case
  proof (cases "sample_DAG_node s R v w")
    case (Pair r w1)
    have t: "filter is_sampler_step (trace w1) = filter is_sampler_step (trace w)"
      using sample_DAG_node_no_sampler_step[of s R v w] Pair by simp
    show ?thesis
    proof (cases r)
      case (Inl e)
      then show ?thesis using Pair t by simp
    next
      case (Inr out)
      then show ?thesis using Pair t Cons.IH by (cases out) simp
    qed
  qed
qed

lemma Score_sample_DAG_no_sampler_step:
  "filter is_sampler_step (trace (snd (Score_sample_DAG s R w)))
     = filter is_sampler_step (trace w)"
  by (simp add: Score_sample_DAG_def sample_DAG_loop_no_sampler_step)

lemma mcmc_sample_one_step:
  "mcmc_sample sample st = (R, (m1, w1)) \<Longrightarrow>
     length (filter is_sampler_step (trace w1))
       = Suc (length (filter is_sampler_step (trace (snd st))))"
  by (auto simp add: mcmc_sample_def split: prod.splits)

lemma sampler_step_one_step:
  "length (filter is_sampler_step (trace (snd (sampler_step sample st))))
     = Suc (length (filter is_sampler_step (trace (snd st))))"
proof -
  obtain R m1 w1 where ms: "mcmc_sample sample st = (R, (m1, w1))" by (metis prod.exhaust)
  then show ?thesis using mcmc_sample_one_step[OF ms] by (simp add: sampler_step_def)
qed

lemma sampler_steps_count:
  "length (filter is_sampler_step (trace (snd ((sampler_step sample ^^ k) st))))
     = length (filter is_sampler_step (trace (snd st))) + k"
  by (induction k) (simp_all add: sampler_step_one_step)

lemma recorded_pass_one_step:
  assumes "recorded_pass g score sample i st r y"
  shows "length (filter is_sampler_step (trace (snd y)))
           = Suc (length (filter is_sampler_step (trace (snd st))))"
    and "length r = (if i mod params_thinning g = 0 then 1 else 0)"
proof -
  obtain R m1 w1 where ms: "mcmc_sample sample st = (R, (m1, w1))" by (metis prod.exhaust)
  note one = mcmc_sample_one_step[OF ms]
  show "length (filter is_sampler_step (trace (snd y)))
           = Suc (length (filter is_sampler_step (trace (snd st))))"
  proof (cases "i mod params_thinning g = 0")
    case True
    with assms obtain dag sc1 w2 where
      d: "Score_sample_DAG score R w1 = (Inr (dag, sc1), w2)" "y = (m1, w2)"
      unfolding recorded_pass_thinned[OF ms True] by blast
    have "filter is_sampler_step (trace w2) = filter is_sampler_step (trace w1)"
      using Score_sample_DAG_no_sampler_step[of score R w1] d(1) by simp
    then show ?thesis using one d(2) by simp
  next
    case False
    with assms have "y = (m1, w1)" unfolding recorded_pass_skipped[OF ms False] by simp
    then show ?thesis using one by simp
  qed
  show "length r = (if i mod params_thinning g = 0 then 1 else 0)"
  proof (cases "i mod params_thinning g = 0")
    case True
    with assms show ?thesis unfolding recorded_pass_thinned[OF ms True] by auto
  next
    case False
    with assms show ?thesis unfolding recorded_pass_skipped[OF ms False] by simp
  qed
qed

lemma passes_count:
  assumes "\<forall>i<n. recorded_pass g score sample (int i) (sts ! i) (recs ! i) (sts ! Suc i)"
    and "k \<le> n"
  shows "length (filter is_sampler_step (trace (snd (sts ! k))))
           = length (filter is_sampler_step (trace (snd (sts ! 0)))) + k"
  using assms(2)
proof (induction k)
  case 0
  show ?case by simp
next
  case (Suc k)
  then have "k < n" by simp
  with assms(1) have "recorded_pass g score sample (int k) (sts ! k) (recs ! k) (sts ! Suc k)"
    by blast
  from recorded_pass_one_step(1)[OF this] Suc show ?case by simp
qed

lemma concat_length_filter:
  "length recs = n \<Longrightarrow> (\<forall>i<n. length (recs ! i) = (if P i then 1 else 0)) \<Longrightarrow>
     length (concat recs) = length (filter P [0..<n])"
proof (induction recs arbitrary: n rule: rev_induct)
  case Nil
  then show ?case by simp
next
  case (snoc r recs)
  let ?m = "length recs"
  have n: "n = Suc ?m" using snoc.prems(1) by simp
  have "\<forall>i<?m. length (recs ! i) = (if P i then 1 else 0)"
  proof (intro allI impI)
    fix i assume i: "i < ?m"
    then have "length ((recs @ [r]) ! i) = (if P i then 1 else 0)"
      using snoc.prems(2) n by simp
    then show "length (recs ! i) = (if P i then 1 else 0)" using i by (simp add: nth_append)
  qed
  then have ih: "length (concat recs) = length (filter P [0..<?m])"
    using snoc.IH[of ?m] by simp
  have "?m < n" using n by simp
  with snoc.prems(2) have "length ((recs @ [r]) ! ?m) = (if P ?m then 1 else 0)"
    by blast
  then have "length r = (if P ?m then 1 else 0)" by simp
  then show ?case using ih n by simp
qed


text \<open>
  Claim C4. With a thinning other than 0 and the score aggregator in place,
  \<^verbatim>\<open>_run_mcmc\<close> returns \<open>(dags, dag_scores)\<close> exactly when the progress report cannot
  divide by zero and the following run exists: \<open>burn_in\<close> steps of the sampler and
  nothing else, then one pass per sampling iteration \<open>i = 0, ..., iterations - 1\<close>, each
  making one step of the sampler and recording the pair of \<^verbatim>\<open>sample_DAG\<close> exactly when
  \<open>i mod thinning = 0\<close>; the two lists are the recorded pairs in the order of the
  iterations. On return the lists have the same length, the number of iterations
  \<open>i\<close> with \<open>i mod thinning = 0\<close>; the sampler has made \<open>burn_in\<close> steps when burn-in ends
  and \<open>burn_in + iterations\<close> steps in all.
\<close>

theorem Gadget_run_mcmc_thinning:
  assumes "params_thinning g \<noteq> 0" and "g_score g = Some score"
  shows "(Gadget_run_mcmc g sample due st = (Inr (dags, dag_scores), st') \<longleftrightarrow>
            (\<not> g_logfile g \<or> params_burn_in g + params_iterations g \<noteq> 0)
            \<and> (\<exists>recs sts. length recs = nat (params_iterations g)
                 \<and> length sts = Suc (nat (params_iterations g))
                 \<and> sts ! 0 = (sampler_step sample ^^ nat (params_burn_in g)) st
                 \<and> sts ! nat (params_iterations g) = st'
                 \<and> (\<forall>i<nat (params_iterations g).
                       recorded_pass g score sample (int i) (sts ! i) (recs ! i) (sts ! Suc i))
                 \<and> dags = map fst (concat recs) \<and> dag_scores = map snd (concat recs)))
         \<and> (Gadget_run_mcmc g sample due st = (Inr (dags, dag_scores), st') \<longrightarrow>
              length dags = length dag_scores
              \<and> length dags
                  = length (filter (\<lambda>i. int i mod params_thinning g = 0)
                              [0..<nat (params_iterations g)])
              \<and> length (filter is_sampler_step
                          (trace (snd ((sampler_step sample ^^ nat (params_burn_in g)) st))))
                  = length (filter is_sampler_step (trace (snd st))) + nat (params_burn_in g)
              \<and> length (filter is_sampler_step (trace (snd st')))
                  = length (filter is_sampler_step (trace (snd st)))
                      + nat (params_burn_in g) + nat (params_iterations g))"
proof (intro conjI impI)
  show "Gadget_run_mcmc g sample due st = (Inr (dags, dag_scores), st') \<longleftrightarrow>
            (\<not> g_logfile g \<or> params_burn_in g + params_iterations g \<noteq> 0)
            \<and> (\<exists>recs sts. length recs = nat (params_iterations g)
                 \<and> length sts = Suc (nat (params_iterations g))
                 \<and> sts ! 0 = (sampler_step sample ^^ nat (params_burn_in g)) st
                 \<and> sts ! nat (params_iterations g) = st'
                 \<and> (\<forall>i<nat (params_iterations g).
                       recorded_pass g score sample (int i) (sts ! i) (recs ! i) (sts ! Suc i))
                 \<and> dags = map fst (concat recs) \<and> dag_scores = map snd (concat recs))"
    by (rule Gadget_run_mcmc_char[OF assms])
next
  let ?n = "nat (params_iterations g)" and ?b = "nat (params_burn_in g)"
  assume "Gadget_run_mcmc g sample due st = (Inr (dags, dag_scores), st')"
  then obtain recs sts where
    o: "length recs = ?n" "length sts = Suc ?n"
      "sts ! 0 = (sampler_step sample ^^ ?b) st" "sts ! ?n = st'"
      "\<forall>i<?n. recorded_pass g score sample (int i) (sts ! i) (recs ! i) (sts ! Suc i)"
      "dags = map fst (concat recs)" "dag_scores = map snd (concat recs)"
    unfolding Gadget_run_mcmc_char[OF assms] by blast
  show "length dags = length dag_scores" using o(6,7) by simp
  have "\<forall>i<?n. length (recs ! i) = (if int i mod params_thinning g = 0 then 1 else 0)"
    using o(5) recorded_pass_one_step(2) by blast
  from concat_length_filter[OF o(1) this]
  show "length dags = length (filter (\<lambda>i. int i mod params_thinning g = 0) [0..<?n])"
    using o(6) by simp
  show "length (filter is_sampler_step (trace (snd ((sampler_step sample ^^ ?b) st))))
          = length (filter is_sampler_step (trace (snd st))) + ?b"
    by (rule sampler_steps_count)
  show "length (filter is_sampler_step (trace (snd st')))
          = length (filter is_sampler_step (trace (snd st))) + ?b + ?n"
    using passes_count[OF o(5), of ?n] o(3,4) by (simp add: sampler_steps_count)
qed

lemma example_sample_DAG:
  "Score_sample_DAG \<lparr>C = [(0, [1]), (1, [0])], score_array = [[Fin 1, Fin 2], [Fin 3, Fin 4]],
         c_r_score = \<lparr>c_r_sum = (\<lambda>v U_bm T_bm. Fin 5), c_r_sample_pset = (\<lambda>v U_bm T_bm t. 1)\<rparr>,
         c_c_score = None\<rparr> [{0}, {1}] \<lparr>rng = (\<lambda>i. 1), trace = tr\<rparr>
     = (Inr ([(0, {}), (1, {0})], Fin 9),
        \<lparr>rng = (\<lambda>i. 1),
           trace = tr @ [CR_sum 0 0 None, CR_sum 1 1 (Some 1), Exponential 1, Exponential 1,
                        CR_sample_pset 1 1 1 (Fin 4)]\<rparr>)"
proof -
  have u: "[0..<2] = [0, Suc 0]" by (simp add: numeral_2_eq_2)
  show ?thesis
    by (simp add: Score_sample_DAG_def Score_n_def py_range_def sample_DAG_node_def
        Score_sum_def Score_sample_pset_def restricted_weight_eq bm_def bm_to_ints_def
        exponential_def c_r_score_sample_pset_def score_array_get_def fl_sub_def Let_def
        c_r_score_sum_def u bit_0)
qed

theorem Gadget_run_mcmc_thinning_witness:
  "Gadget_run_mcmc
      \<lparr>g_data = \<lparr>data_shape = (5, 2), discrete = True\<rparr>, params_score_name = ''bdeu'',
        params_K = 1, params_d = 1, params_mc3 = 1, params_burn_in = 1, params_iterations = 2,
        params_thinning = 2, params_score_sum_eps = 1, g_logfile = True,
        g_C = [(0, [1]), (1, [0])], g_score_array = [[Fin 1, Fin 2], [Fin 3, Fin 4]],
        g_c_r_score = \<lparr>c_r_sum = (\<lambda>v U_bm T_bm. Fin 5), c_r_sample_pset = (\<lambda>v U_bm T_bm t. 1)\<rparr>,
        g_c_c_score = None, g_l_score = None,
        g_score = Some \<lparr>C = [(0, [1]), (1, [0])], score_array = [[Fin 1, Fin 2], [Fin 3, Fin 4]],
         c_r_score = \<lparr>c_r_sum = (\<lambda>v U_bm T_bm. Fin 5), c_r_sample_pset = (\<lambda>v U_bm T_bm t. 1)\<rparr>,
         c_c_score = None\<rparr>,
        g_mcmc = None\<rparr>
      (\<lambda>m r. ([{0}, {1}], Suc m, r)) (\<lambda>i. False) (0, \<lparr>rng = (\<lambda>i. 1), trace = []\<rparr>)
     = (Inr ([[(0, {}), (1, {0})]], [Fin 9]), (3::nat, \<lparr>rng = (\<lambda>i. 1),
          trace = [MCMC_sample, MCMC_sample, CR_sum 0 0 None, CR_sum 1 1 (Some 1), Exponential 1,
                   Exponential 1, CR_sample_pset 1 1 1 (Fin 4), MCMC_sample]\<rparr>))
   \<and> length [[(0::int, {}), (1, {0::int})]]
       = length (filter (\<lambda>i. int i mod 2 = 0) [0..<2])
   \<and> length (filter is_sampler_step (trace (snd (3::nat, \<lparr>rng = (\<lambda>i. 1),
          trace = [MCMC_sample, MCMC_sample, CR_sum 0 0 None, CR_sum 1 1 (Some 1), Exponential 1,
                   Exponential 1, CR_sample_pset 1 1 1 (Fin 4), MCMC_sample]\<rparr>)))) = 3"
proof -
  define g :: Gadget where "g = \<lparr>g_data = \<lparr>data_shape = (5, 2), discrete = True\<rparr>, params_score_name = ''bdeu'',
        params_K = 1, params_d = 1, params_mc3 = 1, params_burn_in = 1, params_iterations = 2,
        params_thinning = 2, params_score_sum_eps = 1, g_logfile = True,
        g_C = [(0, [1]), (1, [0])], g_score_array = [[Fin 1, Fin 2], [Fin 3, Fin 4]],
        g_c_r_score = \<lparr>c_r_sum = (\<lambda>v U_bm T_bm. Fin 5), c_r_sample_pset = (\<lambda>v U_bm T_bm t. 1)\<rparr>,
        g_c_c_score = None, g_l_score = None,
        g_score = Some \<lparr>C = [(0, [1]), (1, [0])], score_array = [[Fin 1, Fin 2], [Fin 3, Fin 4]],
         c_r_score = \<lparr>c_r_sum = (\<lambda>v U_bm T_bm. Fin 5), c_r_sample_pset = (\<lambda>v U_bm T_bm t. 1)\<rparr>,
         c_c_score = None\<rparr>,
        g_mcmc = None\<rparr>"
  define score where "score = \<lparr>C = [(0, [1]), (1, [0])], score_array = [[Fin 1, Fin 2], [Fin 3, Fin 4]],
         c_r_score = \<lparr>c_r_sum = (\<lambda>v U_bm T_bm. Fin 5), c_r_sample_pset = (\<lambda>v U_bm T_bm t. 1)\<rparr>,
         c_c_score = None\<rparr>"
  define sample :: "nat sampler" where "sample = (\<lambda>m r. ([{0}, {1}], Suc m, r))"
  define due :: "int \<Rightarrow> bool" where "due = (\<lambda>i. False)"
  define st :: "nat \<times> world" where "st = (0, \<lparr>rng = (\<lambda>i. 1), trace = []\<rparr>)"
  define st' :: "nat \<times> world" where "st' = (3::nat, \<lparr>rng = (\<lambda>i. 1),
          trace = [MCMC_sample, MCMC_sample, CR_sum 0 0 None, CR_sum 1 1 (Some 1), Exponential 1,
                   Exponential 1, CR_sample_pset 1 1 1 (Fin 4), MCMC_sample]\<rparr>)"
  have t: "params_thinning g \<noteq> 0" and sc: "g_score g = Some score"
    by (simp_all add: g_def score_def)
  have r1: "py_range 1 = [0]" by (simp add: py_range_def)
  have r2: "py_range 2 = [0, 1]" by (simp add: py_range_def numeral_2_eq_2)
  have run: "Gadget_run_mcmc g sample due st = (Inr ([[(0, {}), (1, {0})]], [Fin 9]), st')"
    unfolding g_def sample_def due_def st_def st'_def
    by (simp add: Gadget_run_mcmc_def r1 r2 mcmc_sample_def print_stats_def
        example_sample_DAG del: One_nat_def)
  note c = Gadget_run_mcmc_thinning[OF t sc, THEN conjunct2, THEN mp, OF run]
  have a: "length [[(0::int, {}), (1, {0::int})]]
             = length (filter (\<lambda>i. int i mod 2 = 0) [0..<2])"
    using c by (simp add: g_def)
  have b: "length (filter is_sampler_step (trace (snd st'))) = 3"
    using c by (simp add: g_def st_def)
  have "Gadget_run_mcmc g sample due st = (Inr ([[(0, {}), (1, {0})]], [Fin 9]), st')
        \<and> length [[(0::int, {}), (1, {0::int})]]
            = length (filter (\<lambda>i. int i mod 2 = 0) [0..<2])
        \<and> length (filter is_sampler_step (trace (snd st'))) = 3"
    by (rule conjI[OF run conjI[OF a b]])
  then show ?thesis unfolding g_def sample_def due_def st_def st'_def .
qed

end
